theory Spec2Isabelle
  imports Main "HOL-Library.AList"
begin

text \<open>
  The main-process services of the worktree manager: the parser of
  \<open>git worktree list --porcelain\<close>, the removal of a worktree with its recovery path,
  the WORKTREE_REMOVE handler that tears down watchers, terminals and agent sessions first,
  and the agent session manager with its NDJSON framing of a subprocess's stdout. The
  first part holds the model of the code, the second the properties proved of it.
\<close>

section \<open>JavaScript string primitives used by the services\<close>

text \<open>
  Strings are lists of characters (\<^typ>\<open>string\<close>). Every character the sources test
  for is an ASCII one, and the functions below only compare characters. They are the
  built-ins the sources call: \<open>split('\n')\<close>, \<open>startsWith\<close>, \<open>substring(n)\<close>,
  \<open>includes\<close>, \<open>replace(pattern, replacement)\<close> with a string pattern (first
  occurrence only) and \<open>replace(/c/g, replacement)\<close> for a one-character global
  pattern.
\<close>

definition newline :: char where
  "newline = CHR 0x0A"

definition backslash :: char where
  "backslash = CHR 0x5C"

definition dquote :: char where
  "dquote = CHR 0x22"

text \<open>
  \<open>s.split('\n')\<close>: never empty; \<open>''.split('\n')\<close> is \<open>['']\<close>. The first branch of
  the \<open>case\<close> is never taken (the result of the recursive call is not empty).
\<close>

fun split_nl :: "string \<Rightarrow> string list" where
  "split_nl [] = [] # []"
| "split_nl (c # cs) =
     (if c = newline then [] # split_nl cs
      else (case split_nl cs of
              [] \<Rightarrow> [c] # []
            | l # ls \<Rightarrow> (c # l) # ls))"

text \<open>\<open>s.startsWith(p)\<close>.\<close>

definition startsWith :: "string \<Rightarrow> string \<Rightarrow> bool" where
  "startsWith s p = (take (length p) s = p)"

text \<open>\<open>s.substring(n)\<close> for a non-negative constant \<open>n\<close>.\<close>

definition substring :: "string \<Rightarrow> nat \<Rightarrow> string" where
  "substring s n = drop n s"

text \<open>\<open>s.includes(p)\<close>.\<close>

fun str_includes :: "string \<Rightarrow> string \<Rightarrow> bool" where
  "str_includes [] p = (p = [])"
| "str_includes (c # cs) p = (startsWith (c # cs) p \<or> str_includes cs p)"

text \<open>\<open>s.replace(p, r)\<close> with a string pattern: only the first occurrence is replaced.\<close>

fun replace_first :: "string \<Rightarrow> string \<Rightarrow> string \<Rightarrow> string" where
  "replace_first [] p r = (if p = [] then r else [])"
| "replace_first (c # cs) p r =
     (if startsWith (c # cs) p then r @ drop (length p) (c # cs)
      else c # replace_first cs p r)"

text \<open>\<open>s.replace(/c/g, r)\<close>: every occurrence of the character is replaced.\<close>

definition replace_all_char :: "string \<Rightarrow> char \<Rightarrow> string \<Rightarrow> string" where
  "replace_all_char s c r = concat (map (\<lambda>x. if x = c then r else [x]) s)"

section \<open>WorktreeService.list\<close>

text \<open>
  \<open>Partial<GitWorktree>\<close>: every field may be undefined. The cast
  \<open>current as GitWorktree\<close> does nothing at run time, so the returned array holds
  the same objects.
\<close>

record GitWorktree =
  path :: "string option"
  head :: "string option"
  branch :: "string option"
  isMainWorktree :: "bool option"
  isLocked :: "bool option"
  prunable :: "bool option"

definition empty_worktree :: GitWorktree where
  "empty_worktree = \<lparr>path = None, head = None, branch = None,
     isMainWorktree = None, isLocked = None, prunable = None\<rparr>"

text \<open>Truthiness of \<open>current.path\<close>: defined and not the empty string.\<close>

definition truthy_str :: "string option \<Rightarrow> bool" where
  "truthy_str v = (case v of None \<Rightarrow> False | Some s \<Rightarrow> s \<noteq> [])"

text \<open>The body of the \<open>for\<close> loop over the lines; the state is \<open>(worktrees, current)\<close>.\<close>

definition list_step :: "GitWorktree list \<times> GitWorktree \<Rightarrow> string \<Rightarrow> GitWorktree list \<times> GitWorktree" where
  "list_step st line =
     (let worktrees = fst st; current = snd st in
      if startsWith line ''worktree '' then
        ((if truthy_str (path current) then worktrees @ [current] else worktrees),
         \<lparr>path = Some (substring line 9), head = None, branch = None,
          isMainWorktree = Some False, isLocked = Some False, prunable = Some False\<rparr>)
      else if startsWith line ''HEAD '' then
        (worktrees, current\<lparr>head := Some (substring line 5)\<rparr>)
      else if startsWith line ''branch '' then
        (worktrees, current\<lparr>branch := Some (replace_first (substring line 7) ''refs/heads/'' [])\<rparr>)
      else if line = ''bare'' then
        (worktrees, current\<lparr>isMainWorktree := Some True\<rparr>)
      else if line = ''locked'' then
        (worktrees, current\<lparr>isLocked := Some True\<rparr>)
      else if line = ''prunable'' then
        (worktrees, current\<lparr>prunable := Some True\<rparr>)
      else (worktrees, current))"

text \<open>The push after the loop.\<close>

definition list_finish :: "GitWorktree list \<times> GitWorktree \<Rightarrow> GitWorktree list" where
  "list_finish st =
     (if truthy_str (path (snd st)) then fst st @ [snd st] else fst st)"

text \<open>\<open>worktrees[0].isMainWorktree = true\<close> when the array is not empty.\<close>

definition mark_first_main :: "GitWorktree list \<Rightarrow> GitWorktree list" where
  "mark_first_main ws =
     (case ws of [] \<Rightarrow> [] | w # rest \<Rightarrow> w\<lparr>isMainWorktree := Some True\<rparr> # rest)"

text \<open>
  \<open>list\<close> on the text that \<open>git worktree list --porcelain\<close> printed (the argument
  \<open>result\<close>).
\<close>

definition list_worktrees :: "string \<Rightarrow> GitWorktree list" where
  "list_worktrees result =
     mark_first_main (list_finish (foldl list_step ([], empty_worktree) (split_nl result)))"

subsection \<open>The stanzas of the porcelain text\<close>

text \<open>
  A stanza is a line beginning \<open>worktree \<close> together with the lines that follow it up to
  the next such line. \<open>stanzas\<close> pairs the remainder of each \<open>worktree \<close> line with the
  other lines of its stanza, in input order; \<open>record_stanzas\<close> keeps those with a
  non-empty remainder.
\<close>

definition not_worktree_line :: "string \<Rightarrow> bool" where
  "not_worktree_line l = (\<not> startsWith l ''worktree '')"

fun stanzas :: "string list \<Rightarrow> (string \<times> string list) list" where
  "stanzas [] = []"
| "stanzas (l # ls) =
     (if startsWith l ''worktree ''
      then (drop 9 l, takeWhile not_worktree_line ls) # stanzas ls
      else stanzas ls)"

definition record_stanzas :: "string list \<Rightarrow> (string \<times> string list) list" where
  "record_stanzas ls = filter (\<lambda>(p, body). p \<noteq> []) (stanzas ls)"

text \<open>The remainder of the last line of \<open>body\<close> that begins with \<open>pre\<close>, if there is one.\<close>

definition last_remainder :: "string \<Rightarrow> string list \<Rightarrow> string option" where
  "last_remainder pre body =
     (let hs = filter (\<lambda>l. startsWith l pre) body in
      if hs = [] then None else Some (drop (length pre) (last hs)))"

text \<open>
  The record of one stanza as the loop builds it: the flags are those of the stanza's
  own lines, and the branch is the remainder with the first occurrence of
  \<open>refs/heads/\<close> taken out.
\<close>

definition stanza_record :: "string \<Rightarrow> string list \<Rightarrow> GitWorktree" where
  "stanza_record p body =
     \<lparr>path = Some p,
      head = last_remainder ''HEAD '' body,
      branch = map_option (\<lambda>r. replace_first r ''refs/heads/'' []) (last_remainder ''branch '' body),
      isMainWorktree = Some (''bare'' \<in> set body),
      isLocked = Some (''locked'' \<in> set body),
      prunable = Some (''prunable'' \<in> set body)\<rparr>"

definition described_records :: "string list \<Rightarrow> GitWorktree list" where
  "described_records ls = map (\<lambda>(p, body). stanza_record p body) (record_stanzas ls)"

text \<open>
  The record of one stanza read literally: \<open>refs/heads/\<close> is removed only where it is
  a prefix of the remainder, and \<open>isMainWorktree\<close> is set by a \<open>bare\<close> line alone.
\<close>

definition strip_prefix :: "string \<Rightarrow> string \<Rightarrow> string" where
  "strip_prefix s p = (if startsWith s p then drop (length p) s else s)"

definition literal_record :: "string \<Rightarrow> string list \<Rightarrow> GitWorktree" where
  "literal_record p body =
     \<lparr>path = Some p,
      head = last_remainder ''HEAD '' body,
      branch = map_option (\<lambda>r. strip_prefix r ''refs/heads/'') (last_remainder ''branch '' body),
      isMainWorktree = Some (''bare'' \<in> set body),
      isLocked = Some (''locked'' \<in> set body),
      prunable = Some (''prunable'' \<in> set body)\<rparr>"

definition literal_records :: "string list \<Rightarrow> GitWorktree list" where
  "literal_records ls = map (\<lambda>(p, body). literal_record p body) (record_stanzas ls)"

text \<open>Sample porcelain texts.\<close>

definition sample_porcelain :: string where
  "sample_porcelain =
     ''worktree /repo'' @ newline # ''HEAD 1a2b'' @ newline # ''branch refs/heads/main'' @ newline #
     newline # ''worktree /repo/wt'' @ newline # ''HEAD 3c4d'' @ newline # ''bare'' @ newline #
     ''locked'' @ newline # newline # ''worktree '' @ newline # ''prunable'' @ newline #
     ''worktree /repo/old'' @ newline # ''prunable'' @ [newline]"

definition odd_branch_porcelain :: string where
  "odd_branch_porcelain = ''worktree /a'' @ newline # ''branch x/refs/heads/y''"

section \<open>AgentSessionManager\<close>

text \<open>
  A value thrown by JavaScript code: an \<open>Error\<close> object with its message, or any other
  value, kept as the string that \<open>String(value)\<close> gives.
\<close>

datatype thrown = JsError string | NonError string

text \<open>
  The effects of the manager on the world outside it, in the order they happen:
  processes spawned (with their working directory), processes killed, text written to a
  process's stdin, and messages handed to a session's \<open>onMessage\<close> callback.
\<close>

record AgentMessage =
  role :: string
  content :: string

datatype 'p effect =
    Spawn string 'p
  | Kill 'p
  | StdinWrite 'p string
  | OnMessage string AgentMessage

text \<open>
  The \<open>Session\<close> interface. \<open>'p\<close> is the type of process handles, \<open>'a\<close> of agent
  metadata, \<open>'c\<close> of message callbacks.
\<close>

record ('p, 'a, 'c) Session =
  session_id :: string
  process :: 'p
  agent :: 'a
  workdir :: string
  onMessage :: 'c

text \<open>
  The fields of the class. A JavaScript \<open>Map\<close> keeps its entries in insertion order, so
  \<open>sessions\<close> is an association list: \<open>Map.set\<close> is \<open>AList.update\<close> (an existing key keeps
  its place, a new key goes to the end), \<open>Map.delete\<close> is \<open>AList.delete\<close>, \<open>Map.get\<close> is
  \<open>map_of\<close>. \<open>effects\<close> is the log of what the manager did to the outside world.
\<close>

record ('p, 'a, 'c) manager =
  sessions :: "(string \<times> ('p, 'a, 'c) Session) list"
  counter :: nat
  effects :: "'p effect list"

definition init_manager :: "('p, 'a, 'c) manager" where
  "init_manager = \<lparr>sessions = [], counter = 0, effects = []\<rparr>"

text \<open>
  \<open>++this.counter\<close> on a JavaScript number. Numbers are IEEE-754 doubles: below \<open>2^53\<close>
  the increment is exact, and \<open>2^53 + 1\<close> rounds back to \<open>2^53\<close>, so a counter that
  starts at 0 stops there.
\<close>

definition js_increment :: "nat \<Rightarrow> nat" where
  "js_increment n = (if n < 2 ^ 53 then n + 1 else n)"

text \<open>The decimal digits of a number, as a template literal prints an integer below \<open>10^21\<close>.\<close>

definition digit_char :: "nat \<Rightarrow> char" where
  "digit_char d = ''0123456789'' ! d"

fun string_of_nat :: "nat \<Rightarrow> string" where
  "string_of_nat n =
     (if n < 10 then [digit_char n] else string_of_nat (n div 10) @ [digit_char (n mod 10)])"

declare string_of_nat.simps [simp del]

definition agent_id :: "nat \<Rightarrow> string" where
  "agent_id n = ''agent-'' @ string_of_nat n"

text \<open>
  \<open>create\<close>. \<open>spawn\<close> is what \<open>spawn('npx', ['claude-code-acp'], {cwd, ...})\<close> does for a
  working directory: it returns the handle of the new process, or throws at once (for
  instance on a directory name that holds a NUL character). The counter is incremented
  before \<open>spawn\<close> is called and nothing catches what \<open>spawn\<close> throws, so a throw ends
  \<open>create\<close> with the counter advanced and no entry set. The result is the new id, or the
  value thrown, and the new state.
\<close>

definition create ::
  "(string \<Rightarrow> thrown + 'p) \<Rightarrow> 'a \<Rightarrow> string \<Rightarrow> 'c \<Rightarrow> ('p, 'a, 'c) manager \<Rightarrow>
   (thrown + string) \<times> ('p, 'a, 'c) manager" where
  "create spawn agent_meta wd cb m =
     (let n = js_increment (counter m);
          new_id = agent_id n
      in case spawn wd of
           Inl e \<Rightarrow> (Inl e, m\<lparr>counter := n\<rparr>)
         | Inr proc \<Rightarrow>
             (let session = \<lparr>session_id = new_id, process = proc, agent = agent_meta,
                             workdir = wd, onMessage = cb\<rparr>
              in (Inr new_id,
                  m\<lparr>counter := n,
                    effects := effects m @ [Spawn wd proc],
                    sessions := AList.update new_id session (sessions m)\<rparr>)))"

text \<open>The \<open>exit\<close> callback that \<open>create\<close> registers for the id it made.\<close>

definition on_exit :: "string \<Rightarrow> ('p, 'a, 'c) manager \<Rightarrow> ('p, 'a, 'c) manager" where
  "on_exit sid m = m\<lparr>sessions := AList.delete sid (sessions m)\<rparr>"

text \<open>
  \<open>handleMessage\<close>: the message handed to \<open>onMessage\<close>. Its \<open>id\<close> (a random UUID) and
  \<open>timestamp\<close> (the clock) are not modelled; \<open>stringify\<close> is \<open>JSON.stringify\<close>.
\<close>

definition handleMessage :: "('j \<Rightarrow> string) \<Rightarrow> ('p, 'a, 'c) Session \<Rightarrow> 'j \<Rightarrow> 'p effect" where
  "handleMessage stringify session rawMessage =
     OnMessage (session_id session) \<lparr>role = ''assistant'', content = stringify rawMessage\<rparr>"

text \<open>
  The body of the \<open>for\<close> loop of the stdout handler, for one line: \<open>trim\<close> is
  \<open>String.prototype.trim\<close>, \<open>parse\<close> is \<open>JSON.parse\<close> with \<open>None\<close> where it throws. The
  \<open>catch\<close> also swallows what the callback throws; the call has been made by then.
\<close>

definition stdout_line ::
  "(string \<Rightarrow> string) \<Rightarrow> (string \<Rightarrow> 'j option) \<Rightarrow> ('j \<Rightarrow> string) \<Rightarrow>
   ('p, 'a, 'c) Session \<Rightarrow> string \<Rightarrow> 'p effect list" where
  "stdout_line trim parse stringify session line =
     (if trim line \<noteq> [] then
        (case parse line of
           Some message \<Rightarrow> [handleMessage stringify session message]
         | None \<Rightarrow> [])
      else [])"

text \<open>\<open>Array.prototype.pop\<close>: the last element (undefined on an empty array) and the rest.\<close>

definition js_pop :: "'x list \<Rightarrow> 'x option \<times> 'x list" where
  "js_pop xs = (if xs = [] then (None, []) else (Some (last xs), butlast xs))"

text \<open>\<open>v || ''\<close> on a string or undefined.\<close>

definition or_empty :: "string option \<Rightarrow> string" where
  "or_empty v = (case v of None \<Rightarrow> [] | Some s \<Rightarrow> if s = [] then [] else s)"

text \<open>
  The \<open>data\<close> handler of stdout. The state is the closure variable \<open>buffer\<close> and the log
  of effects; \<open>chunk\<close> is \<open>chunk.toString()\<close>.
\<close>

definition on_stdout_data ::
  "(string \<Rightarrow> string) \<Rightarrow> (string \<Rightarrow> 'j option) \<Rightarrow> ('j \<Rightarrow> string) \<Rightarrow>
   ('p, 'a, 'c) Session \<Rightarrow> string \<times> 'p effect list \<Rightarrow> string \<Rightarrow> string \<times> 'p effect list" where
  "on_stdout_data trim parse stringify session st chunk =
     (let buffer = fst st @ chunk;
          popped = js_pop (split_nl buffer);
          buffer' = or_empty (fst popped);
          lines = snd popped
      in (buffer', snd st @ concat (map (stdout_line trim parse stringify session) lines)))"

text \<open>
  \<open>send\<close>: \<open>encode_request\<close> is \<open>JSON.stringify\<close> of the prompt request built around the
  text (with its random request id).
\<close>

definition send ::
  "(string \<Rightarrow> string) \<Rightarrow> string \<Rightarrow> string \<Rightarrow> ('p, 'a, 'c) manager \<Rightarrow>
   (thrown + unit) \<times> ('p, 'a, 'c) manager" where
  "send encode_request sessionId msg_content m =
     (case map_of (sessions m) sessionId of
        None \<Rightarrow> (Inl (JsError (''Session not found: '' @ sessionId)), m)
      | Some session \<Rightarrow>
          (Inr (), m\<lparr>effects := effects m @
             [StdinWrite (process session) (encode_request msg_content @ [newline])]\<rparr>))"

definition stop :: "string \<Rightarrow> ('p, 'a, 'c) manager \<Rightarrow> ('p, 'a, 'c) manager" where
  "stop sessionId m =
     (case map_of (sessions m) sessionId of
        None \<Rightarrow> m
      | Some session \<Rightarrow>
          m\<lparr>effects := effects m @ [Kill (process session)],
            sessions := AList.delete sessionId (sessions m)\<rparr>)"

definition stopAll :: "('p, 'a, 'c) manager \<Rightarrow> ('p, 'a, 'c) manager" where
  "stopAll m =
     m\<lparr>effects := effects m @ map (\<lambda>e. Kill (process (snd e))) (sessions m),
       sessions := []\<rparr>"

text \<open>
  \<open>stopByWorkdir\<close>. \<open>lower\<close> is \<open>String.prototype.toLowerCase\<close>. The loop deletes only the
  entry it is visiting, so it visits every entry the map had when it started, in order.
\<close>

definition normalize_dir :: "(string \<Rightarrow> string) \<Rightarrow> string \<Rightarrow> string" where
  "normalize_dir lower d = lower (replace_all_char d backslash ''/'')"

definition under_workdir :: "(string \<Rightarrow> string) \<Rightarrow> string \<Rightarrow> ('p, 'a, 'c) Session \<Rightarrow> bool" where
  "under_workdir lower wd session =
     (let normalizedWorkdir = normalize_dir lower wd;
          normalizedCwd = normalize_dir lower (workdir session)
      in normalizedCwd = normalizedWorkdir \<or> startsWith normalizedCwd (normalizedWorkdir @ ''/''))"

definition stopByWorkdir_step ::
  "(string \<Rightarrow> string) \<Rightarrow> string \<Rightarrow> ('p, 'a, 'c) manager \<Rightarrow>
   string \<times> ('p, 'a, 'c) Session \<Rightarrow> ('p, 'a, 'c) manager" where
  "stopByWorkdir_step lower wd m entry =
     (if under_workdir lower wd (snd entry) then
        m\<lparr>effects := effects m @ [Kill (process (snd entry))],
          sessions := AList.delete (fst entry) (sessions m)\<rparr>
      else m)"

definition stopByWorkdir ::
  "(string \<Rightarrow> string) \<Rightarrow> string \<Rightarrow> ('p, 'a, 'c) manager \<Rightarrow> ('p, 'a, 'c) manager" where
  "stopByWorkdir lower wd m = foldl (stopByWorkdir_step lower wd) m (sessions m)"

text \<open>The states the manager can be in: those that the operations reach from the new one.\<close>

inductive reachable :: "('p, 'a, 'c) manager \<Rightarrow> bool" where
  r_init: "reachable init_manager"
| r_create: "reachable m \<Longrightarrow> reachable (snd (create spawn agent_meta wd cb m))"
| r_send: "reachable m \<Longrightarrow> reachable (snd (send encode_request sessionId msg_content m))"
| r_stop: "reachable m \<Longrightarrow> reachable (stop sessionId m)"
| r_stopAll: "reachable m \<Longrightarrow> reachable (stopAll m)"
| r_stopByWorkdir: "reachable m \<Longrightarrow> reachable (stopByWorkdir lower wd m)"
| r_exit: "reachable m \<Longrightarrow> reachable (on_exit sid m)"

text \<open>Lower-casing of the ASCII letters, for sample runs.\<close>

definition ascii_lower :: "string \<Rightarrow> string" where
  "ascii_lower s =
     map (\<lambda>c. case map_of (zip ''ABCDEFGHIJKLMNOPQRSTUVWXYZ'' ''abcdefghijklmnopqrstuvwxyz'') c of
                Some l \<Rightarrow> l
              | None \<Rightarrow> c) s"

text \<open>
  The invariant of the session map: the key of each entry is the id in its record, and
  no key occurs twice.
\<close>

definition manager_inv :: "('p, 'a, 'c) manager \<Rightarrow> bool" where
  "manager_inv m =
     ((\<forall>e \<in> set (sessions m). session_id (snd e) = fst e) \<and> distinct (map fst (sessions m)))"

text \<open>Every key was made by \<open>create\<close> from a counter value that has been passed.\<close>

definition ids_issued :: "('p, 'a, 'c) manager \<Rightarrow> bool" where
  "ids_issued m =
     ((\<forall>k \<in> fst ` set (sessions m). \<exists>n. 0 < n \<and> n \<le> counter m \<and> k = agent_id n)
      \<and> counter m \<le> 2 ^ 53)"

text \<open>
  A sample \<open>spawn\<close>: it throws on a working directory that holds a NUL character and
  returns the given handle otherwise. Sample states: one and two sessions.
\<close>

definition node_spawn :: "nat \<Rightarrow> string \<Rightarrow> thrown + nat" where
  "node_spawn pid wd =
     (if CHR 0x00 \<in> set wd
      then Inl (JsError ''The property options.cwd must be a string without null bytes'')
      else Inr pid)"

definition one_session :: "(nat, unit, unit) manager" where
  "one_session = snd (create (node_spawn 1) () ''C:/Repo/wt'' () init_manager)"

definition two_sessions :: "(nat, unit, unit) manager" where
  "two_sessions = snd (create (node_spawn 2) () ''/other'' () one_session)"

text \<open>A sample session and toy stand-ins for \<open>trim\<close> and \<open>JSON.parse\<close>, for sample runs.\<close>

definition sample_session :: "(nat, unit, unit) Session" where
  "sample_session = \<lparr>session_id = ''agent-1'', process = 1, agent = (),
     workdir = ''/w'', onMessage = ()\<rparr>"

definition toy_trim :: "string \<Rightarrow> string" where
  "toy_trim s = filter (\<lambda>c. c \<noteq> CHR '' '') s"

definition toy_parse :: "string \<Rightarrow> string option" where
  "toy_parse s = (if startsWith s ''{'' then Some s else None)"

definition sample_chunks :: "string list" where
  "sample_chunks =
     [''{a:1'', ''}'' @ newline # ''  '' @ newline # ''no'', ''pe'' @ newline # ''{}'' @ newline # ''{b'']"

section \<open>WorktreeService.remove and the WORKTREE_REMOVE handler\<close>

text \<open>
  The calls that leave the program, in the order they are made. The answers come from
  the environment: each one may depend on the calls made so far, so the same command can
  succeed once and fail later. A call that throws (or whose promise rejects) answers
  \<open>Inl\<close>.
\<close>

datatype call =
    GitRaw "string list"
  | ExistsSync string
  | ExecAsync string
  | FsRm string bool bool
  | SetTimeout nat
  | StopWatchersInDirectory string
  | PtyDestroyByWorkdir string
  | GetWorktreeService string

record env =
  platform :: string
  git_raw :: "call list \<Rightarrow> string list \<Rightarrow> thrown + string"
  exists_sync :: "call list \<Rightarrow> string \<Rightarrow> bool"
  exec_async :: "call list \<Rightarrow> string \<Rightarrow> thrown + unit"
  fs_rm :: "call list \<Rightarrow> string \<Rightarrow> thrown + unit"
  stop_watchers :: "call list \<Rightarrow> string \<Rightarrow> thrown + unit"
  pty_destroy :: "call list \<Rightarrow> string \<Rightarrow> thrown + unit"
  get_service :: "call list \<Rightarrow> string \<Rightarrow> thrown + unit"

text \<open>\<open>WorktreeRemoveOptions\<close>: \<open>options.path\<close>, \<open>options.force\<close>, \<open>options.deleteBranch\<close>
  and \<open>options.branch\<close> (an absent flag is false, an absent branch is \<open>None\<close>).\<close>

record WorktreeRemoveOptions =
  options_path :: string
  options_force :: bool
  options_deleteBranch :: bool
  options_branch :: "string option"

text \<open>\<open>error instanceof Error ? error.message : String(error)\<close>.\<close>

fun error_message :: "thrown \<Rightarrow> string" where
  "error_message (JsError msg) = msg"
| "error_message (NonError str) = str"

text \<open>\<open>this.git.raw(args)\<close>: the answer, and the trace with the call added.\<close>

definition git_raw_call :: "env \<Rightarrow> string list \<Rightarrow> call list \<Rightarrow> (thrown + string) \<times> call list" where
  "git_raw_call E args t = (git_raw E t args, t @ [GitRaw args])"

definition prune :: "env \<Rightarrow> call list \<Rightarrow> (thrown + unit) \<times> call list" where
  "prune E t =
     (case git_raw_call E [''worktree'', ''prune''] t of
        (Inl e, t') \<Rightarrow> (Inl e, t')
      | (Inr _, t') \<Rightarrow> (Inr (), t'))"

subsection \<open>killProcessesInDirectory\<close>

text \<open>The template literal \<open>psScript\<close>, around the path with its backslashes doubled.\<close>

definition psScript :: "string \<Rightarrow> string" where
  "psScript normalizedPath =
     newline # ''      Get-Process node -ErrorAction SilentlyContinue | Where-Object {'' @
     newline # ''        try {'' @
     newline # ''          $cwd = (Get-CimInstance Win32_Process -Filter '' @ dquote #
                 ''ProcessId = $($_.Id)'' @ dquote # '').CommandLine'' @
     newline # ''          $cwd -like '' @ dquote # ''*'' @
                 replace_all_char normalizedPath backslash [backslash, backslash] @ ''*'' @ [dquote] @
     newline # ''        } catch { $false }'' @
     newline # ''      } | Stop-Process -Force -ErrorAction SilentlyContinue'' @
     newline # ''    ''"

definition kill_command :: "string \<Rightarrow> string" where
  "kill_command dirPath =
     (let normalizedPath = replace_all_char dirPath CHR ''/'' [backslash] in
      ''powershell -Command '' @ dquote #
        replace_all_char (replace_all_char (psScript normalizedPath) dquote [backslash, dquote])
          newline '' '' @ [dquote])"

definition killProcessesInDirectory ::
  "env \<Rightarrow> string \<Rightarrow> call list \<Rightarrow> (thrown + unit) \<times> call list" where
  "killProcessesInDirectory E dirPath t =
     (if platform E \<noteq> ''win32'' then (Inr (), t)
      else (case exec_async E t (kill_command dirPath) of
              Inl _ \<Rightarrow> (Inr (), t @ [ExecAsync (kill_command dirPath)])
            | Inr _ \<Rightarrow> (Inr (), t @ [ExecAsync (kill_command dirPath)])))"

subsection \<open>remove\<close>

definition remove_args :: "WorktreeRemoveOptions \<Rightarrow> string list" where
  "remove_args options =
     [''worktree'', ''remove''] @ (if options_force options then [''--force''] else [])
       @ [options_path options]"

definition rmdir_command :: "string \<Rightarrow> string" where
  "rmdir_command p = ''rmdir /s /q '' @ dquote # p @ [dquote]"

definition removal_failed :: "string \<Rightarrow> thrown" where
  "removal_failed p =
     JsError (''Failed to remove worktree directory: '' @ p @ ''. '' @
              ''Please close any programs using this directory and try again.'')"

text \<open>The \<open>try\<close> around the manual deletion: whatever it throws is replaced.\<close>

definition manual_delete :: "env \<Rightarrow> string \<Rightarrow> call list \<Rightarrow> (thrown + unit) \<times> call list" where
  "manual_delete E p t =
     (if platform E = ''win32'' then
        (case exec_async E t (rmdir_command p) of
           Inl rmError \<Rightarrow> (Inl (removal_failed p), t @ [ExecAsync (rmdir_command p)])
         | Inr _ \<Rightarrow> (Inr (), t @ [ExecAsync (rmdir_command p)]))
      else
        (case fs_rm E t p of
           Inl rmError \<Rightarrow> (Inl (removal_failed p), t @ [FsRm p True True])
         | Inr _ \<Rightarrow> (Inr (), t @ [FsRm p True True])))"

text \<open>The branch taken when the error message matched: lines 117 to 141.\<close>

definition manual_cleanup ::
  "env \<Rightarrow> WorktreeRemoveOptions \<Rightarrow> call list \<Rightarrow> (thrown + unit) \<times> call list" where
  "manual_cleanup E options t =
     (let p = options_path options; t1 = t @ [ExistsSync p] in
      if exists_sync E t p then
        (case killProcessesInDirectory E p t1 of
           (Inl e, t2) \<Rightarrow> (Inl e, t2)
         | (Inr _, t2) \<Rightarrow>
             (case manual_delete E p (t2 @ [SetTimeout 500]) of
                (Inl e, t4) \<Rightarrow> (Inl e, t4)
              | (Inr _, t4) \<Rightarrow> prune E t4))
      else prune E t1)"

text \<open>The last statement: deleting the branch, with its own empty \<open>catch\<close>.\<close>

definition delete_branch :: "env \<Rightarrow> WorktreeRemoveOptions \<Rightarrow> call list \<Rightarrow> (thrown + unit) \<times> call list" where
  "delete_branch E options t =
     (case options_branch options of
        None \<Rightarrow> (Inr (), t)
      | Some b \<Rightarrow>
          if options_deleteBranch options \<and> b \<noteq> [] then
            (case git_raw_call E [''branch'', ''-D'', b] t of
               (Inl _, t') \<Rightarrow> (Inr (), t')
             | (Inr _, t') \<Rightarrow> (Inr (), t'))
          else (Inr (), t))"

definition message_matches :: "string \<Rightarrow> bool" where
  "message_matches errorMessage =
     (let isPermissionDenied = str_includes errorMessage ''Permission denied'';
          isNotWorktree = str_includes errorMessage ''is not a working tree''
      in isPermissionDenied \<or> isNotWorktree)"

definition remove :: "env \<Rightarrow> WorktreeRemoveOptions \<Rightarrow> call list \<Rightarrow> (thrown + unit) \<times> call list" where
  "remove E options t =
     (case prune E t of
        (Inl e, t1) \<Rightarrow> (Inl e, t1)
      | (Inr _, t1) \<Rightarrow>
          (case git_raw_call E (remove_args options) t1 of
             (Inr _, t2) \<Rightarrow> delete_branch E options t2
           | (Inl error, t2) \<Rightarrow>
               if message_matches (error_message error) then
                 (case manual_cleanup E options t2 of
                    (Inl e, t3) \<Rightarrow> (Inl e, t3)
                  | (Inr _, t3) \<Rightarrow> delete_branch E options t3)
               else (Inl error, t2)))"

subsection \<open>The WORKTREE_REMOVE handler\<close>

text \<open>
  The handler acts on the environment and on the agent session manager, so its timeline
  holds both kinds of event in the order they happen: the calls that the environment
  answers, and the effects of the manager (the \<open>kill\<close> of a session's process among
  them). The environment answers a call from the calls made before it.
\<close>

datatype 'p event = Env call | Agent "'p effect"

fun env_calls :: "'p event list \<Rightarrow> call list" where
  "env_calls [] = []"
| "env_calls (Env c # t) = c # env_calls t"
| "env_calls (Agent e # t) = env_calls t"



text \<open>
  Names for the calls of \<open>remove\<close>, for stating its sequence: the two \<open>git worktree\<close>
  calls, what the kill pass runs (nothing unless on Windows), the manual deletion and what
  the environment answers to it, and the branch deletion (only with \<open>deleteBranch\<close> set
  and a non-empty \<open>branch\<close>).
\<close>

definition prune_args :: "string list" where
  "prune_args = [''worktree'', ''prune'']"

definition prune_call :: call where
  "prune_call = GitRaw prune_args"

definition remove_call :: "WorktreeRemoveOptions \<Rightarrow> call" where
  "remove_call options = GitRaw (remove_args options)"

definition kill_calls :: "env \<Rightarrow> string \<Rightarrow> call list" where
  "kill_calls E p = (if platform E = ''win32'' then [ExecAsync (kill_command p)] else [])"

definition delete_call :: "env \<Rightarrow> string \<Rightarrow> call" where
  "delete_call E p =
     (if platform E = ''win32'' then ExecAsync (rmdir_command p) else FsRm p True True)"

definition delete_answer :: "env \<Rightarrow> call list \<Rightarrow> string \<Rightarrow> thrown + unit" where
  "delete_answer E t p =
     (if platform E = ''win32'' then exec_async E t (rmdir_command p) else fs_rm E t p)"

definition branch_calls :: "WorktreeRemoveOptions \<Rightarrow> call list" where
  "branch_calls options =
     (case options_branch options of
        None \<Rightarrow> []
      | Some b \<Rightarrow>
          if options_deleteBranch options \<and> b \<noteq> [] then [GitRaw [''branch'', ''-D'', b]] else [])"



text \<open>
  The teardown of the handler on a manager \<open>m\<close>: the watchers and the terminals under the
  path are stopped, the process of every session of \<open>m\<close> under the path is killed, and
  the delay is started.
\<close>

definition teardown_events ::
  "(string \<Rightarrow> string) \<Rightarrow> string \<Rightarrow> ('p, 'a, 'c) manager \<Rightarrow> 'p event list" where
  "teardown_events lower p m =
     [Env (StopWatchersInDirectory p), Env (PtyDestroyByWorkdir p)] @
     map (\<lambda>e. Agent (Kill (process (snd e))))
       (filter (\<lambda>e. under_workdir lower p (snd e)) (sessions m)) @
     [Env (SetTimeout 1000)]"

text \<open>Sample environments and options.\<close>

definition posix_env :: env where
  "posix_env = \<lparr>platform = ''linux'',
     git_raw = (\<lambda>t args. Inr []), exists_sync = (\<lambda>t p. True),
     exec_async = (\<lambda>t c. Inr ()), fs_rm = (\<lambda>t p. Inr ()),
     stop_watchers = (\<lambda>t p. Inr ()), pty_destroy = (\<lambda>t p. Inr ()),
     get_service = (\<lambda>t p. Inr ())\<rparr>"

definition sample_options :: WorktreeRemoveOptions where
  "sample_options = \<lparr>options_path = ''/repo/wt'', options_force = True,
     options_deleteBranch = True, options_branch = Some ''feature''\<rparr>"

text \<open>\<open>git worktree remove\<close> fails with the given value; everything else succeeds.\<close>

definition failing_remove_env :: "string \<Rightarrow> thrown \<Rightarrow> bool \<Rightarrow> env" where
  "failing_remove_env os err present = posix_env\<lparr>platform := os,
     git_raw := (\<lambda>t args. if take 2 args = [''worktree'', ''remove''] then Inl err else Inr []),
     exists_sync := (\<lambda>t p. present)\<rparr>"

text \<open>The kill script fails on Windows.\<close>

definition failing_kill_env :: env where
  "failing_kill_env = posix_env\<lparr>platform := ''win32'',
     exec_async := (\<lambda>t c. Inl (JsError ''powershell failed''))\<rparr>"

section \<open>Properties of WorktreeService.list\<close>

lemma startsWith_Cons:
  "startsWith l (c # p) = (\<exists>t. l = c # t \<and> startsWith t p)"
  by (cases l) (auto simp: startsWith_def)

lemma startsWith_Nil [simp]: "startsWith l []"
  by (simp add: startsWith_def)

lemma starts_disjoint:
  "startsWith l ''HEAD '' \<Longrightarrow> \<not> startsWith l ''branch ''"
  "startsWith l ''HEAD '' \<Longrightarrow> l \<noteq> ''bare'' \<and> l \<noteq> ''locked'' \<and> l \<noteq> ''prunable''"
  "startsWith l ''branch '' \<Longrightarrow> l \<noteq> ''bare'' \<and> l \<noteq> ''locked'' \<and> l \<noteq> ''prunable''"
  by (auto simp: startsWith_Cons)

lemma last_remainder_snoc:
  "last_remainder pre (body @ [l]) =
     (if startsWith l pre then Some (drop (length pre) l) else last_remainder pre body)"
  by (simp add: last_remainder_def)

lemma new_is_stanza_record:
  "\<lparr>path = Some p, head = None, branch = None,
     isMainWorktree = Some False, isLocked = Some False, prunable = Some False\<rparr>
   = stanza_record p []"
  by (simp add: stanza_record_def last_remainder_def)

text \<open>A \<open>worktree \<close> line pushes the pending record, if its path is truthy, and starts a new one.\<close>

lemma step_worktree:
  "startsWith l ''worktree '' \<Longrightarrow>
   list_step (ws, cur) l =
     ((if truthy_str (path cur) then ws @ [cur] else ws), stanza_record (drop 9 l) [])"
  by (simp add: list_step_def substring_def Let_def new_is_stanza_record)

lemma step_other:
  "\<not> startsWith l ''worktree '' \<Longrightarrow>
   fst (list_step st l) = fst st \<and> path (snd (list_step st l)) = path (snd st)"
  by (simp add: list_step_def Let_def)

text \<open>Any other line extends the stanza of the current record.\<close>

lemma step_body:
  assumes "\<not> startsWith l ''worktree ''"
  shows "list_step (ws, stanza_record p body) l = (ws, stanza_record p (body @ [l]))"
proof -
  consider (h) "startsWith l ''HEAD ''" | (b) "startsWith l ''branch ''"
    | (o) "\<not> startsWith l ''HEAD ''" "\<not> startsWith l ''branch ''"
    by blast
  then show ?thesis
  proof cases
    case h
    with assms starts_disjoint(1,2) [OF h] show ?thesis
      by (auto simp add: list_step_def Let_def stanza_record_def last_remainder_snoc
          substring_def eval_nat_numeral)
  next
    case b
    have nh: "\<not> startsWith l ''HEAD ''" using b starts_disjoint(1) by blast
    with assms b starts_disjoint(3) [OF b] show ?thesis
      by (auto simp add: list_step_def Let_def stanza_record_def last_remainder_snoc
          substring_def eval_nat_numeral)
  next
    case o
    with assms show ?thesis
      by (auto simp add: list_step_def Let_def stanza_record_def last_remainder_snoc)
  qed
qed

lemma described_records_Cons:
  "described_records (l # ls) =
     (if startsWith l ''worktree '' \<and> drop 9 l \<noteq> []
      then stanza_record (drop 9 l) (takeWhile not_worktree_line ls) # described_records ls
      else described_records ls)"
  by (simp add: described_records_def record_stanzas_def)

lemma fold_current:
  "list_finish (foldl list_step (ws, stanza_record p body) ls) =
     ws @ (if p \<noteq> [] then [stanza_record p (body @ takeWhile not_worktree_line ls)] else [])
        @ described_records ls"
proof (induction ls arbitrary: ws p body)
  case Nil
  show ?case
    by (simp add: list_finish_def truthy_str_def described_records_def record_stanzas_def
        stanza_record_def)
next
  case (Cons l ls)
  show ?case
  proof (cases "startsWith l ''worktree ''")
    case True
    have "list_step (ws, stanza_record p body) l =
            (ws @ (if p \<noteq> [] then [stanza_record p body] else []), stanza_record (drop 9 l) [])"
      using step_worktree [OF True, of ws "stanza_record p body"]
      by (simp add: truthy_str_def stanza_record_def)
    then show ?thesis
      using True Cons.IH [of "ws @ (if p \<noteq> [] then [stanza_record p body] else [])" "drop 9 l" "[]"]
      by (simp add: described_records_Cons not_worktree_line_def)
  next
    case False
    then show ?thesis
      using Cons.IH [of ws p "body @ [l]"]
      by (simp add: step_body described_records_Cons not_worktree_line_def)
  qed
qed

lemma fold_no_current:
  "path cur = None \<Longrightarrow>
   list_finish (foldl list_step (ws, cur) ls) = ws @ described_records ls"
proof (induction ls arbitrary: cur)
  case Nil
  then show ?case
    by (simp add: list_finish_def truthy_str_def described_records_def record_stanzas_def)
next
  case (Cons l ls)
  show ?case
  proof (cases "startsWith l ''worktree ''")
    case True
    have "list_step (ws, cur) l = (ws, stanza_record (drop 9 l) [])"
      using step_worktree [OF True, of ws cur] Cons.prems
      by (simp add: truthy_str_def)
    then show ?thesis
      using True fold_current [of ws "drop 9 l" "[]" ls]
      by (simp add: described_records_Cons)
  next
    case False
    obtain cur' where st: "list_step (ws, cur) l = (ws, cur')" and p: "path cur' = None"
      using step_other [OF False, of "(ws, cur)"] Cons.prems
      by (cases "list_step (ws, cur) l") simp
    show ?thesis
      using False Cons.IH [OF p] by (simp add: st described_records_Cons)
  qed
qed

lemma list_worktrees_described:
  "list_worktrees s = mark_first_main (described_records (split_nl s))"
  by (simp add: list_worktrees_def fold_no_current empty_worktree_def)

lemma mark_first_main_nth:
  "k < length ws \<Longrightarrow>
   mark_first_main ws ! k = (if k = 0 then (ws ! k)\<lparr>isMainWorktree := Some True\<rparr> else ws ! k)"
  by (cases ws; cases k) (simp_all add: mark_first_main_def)

lemma length_mark_first_main: "length (mark_first_main ws) = length ws"
  by (cases ws) (simp_all add: mark_first_main_def)

lemma hd_mark_first_main:
  "ws \<noteq> [] \<Longrightarrow> isMainWorktree (hd (mark_first_main ws)) = Some True"
  by (cases ws) (simp_all add: mark_first_main_def)

text \<open>
  C1, as amended. For every input string, \<open>list\<close> returns one record per line that
  begins with \<open>worktree \<close> and has a non-empty remainder, in input order, built from the
  lines of that line's stanza: the remainder is the path; the last \<open>HEAD \<close> line sets
  head; the last \<open>branch \<close> line sets branch to its remainder with the first occurrence of
  \<open>refs/heads/\<close> removed; \<open>locked\<close> and \<open>prunable\<close> lines set their flags, which are
  false otherwise; \<open>isMainWorktree\<close> is true for the first record, and for a later record
  exactly when its stanza has a \<open>bare\<close> line.
\<close>

theorem list_worktrees_records:
  "list_worktrees s = mark_first_main (described_records (split_nl s))"
  by (simp add: list_worktrees_def fold_no_current empty_worktree_def)

theorem list_worktrees_records_witness:
  "list_worktrees sample_porcelain =
     [\<lparr>path = Some ''/repo'', head = Some ''1a2b'', branch = Some ''main'',
        isMainWorktree = Some True, isLocked = Some False, prunable = Some False\<rparr>,
      \<lparr>path = Some ''/repo/wt'', head = Some ''3c4d'', branch = None,
        isMainWorktree = Some True, isLocked = Some True, prunable = Some False\<rparr>,
      \<lparr>path = Some ''/repo/old'', head = None, branch = None,
        isMainWorktree = Some False, isLocked = Some False, prunable = Some True\<rparr>]"
proof -
  have "mark_first_main (described_records (split_nl sample_porcelain)) =
     [\<lparr>path = Some ''/repo'', head = Some ''1a2b'', branch = Some ''main'',
        isMainWorktree = Some True, isLocked = Some False, prunable = Some False\<rparr>,
      \<lparr>path = Some ''/repo/wt'', head = Some ''3c4d'', branch = None,
        isMainWorktree = Some True, isLocked = Some True, prunable = Some False\<rparr>,
      \<lparr>path = Some ''/repo/old'', head = None, branch = None,
        isMainWorktree = Some False, isLocked = Some False, prunable = Some True\<rparr>]"
    by code_simp
  then show ?thesis
    using list_worktrees_records [of sample_porcelain] by simp
qed

text \<open>
  C1 as stated fails on a stanza without a \<open>bare\<close> line whose branch line holds
  \<open>refs/heads/\<close> after its first character: the record is marked main, and the branch
  loses the inner \<open>refs/heads/\<close>.
\<close>

theorem list_worktrees_literal_counterexample:
  "list_worktrees odd_branch_porcelain \<noteq> literal_records (split_nl odd_branch_porcelain)
   \<and> literal_records (split_nl odd_branch_porcelain) =
       [\<lparr>path = Some ''/a'', head = None, branch = Some ''x/refs/heads/y'',
          isMainWorktree = Some False, isLocked = Some False, prunable = Some False\<rparr>]
   \<and> list_worktrees odd_branch_porcelain =
       [\<lparr>path = Some ''/a'', head = None, branch = Some ''x/y'',
          isMainWorktree = Some True, isLocked = Some False, prunable = Some False\<rparr>]"
  by code_simp

text \<open>
  C9. When \<open>list\<close> returns a non-empty array its first element has \<open>isMainWorktree\<close>
  true, whatever its stanza holds; the array has one element per stanza with a non-empty
  path, and an element after the first has \<open>isMainWorktree\<close> true only if its own stanza
  has a \<open>bare\<close> line.
\<close>

theorem list_worktrees_main_flag:
  "(list_worktrees s \<noteq> [] \<longrightarrow> isMainWorktree (hd (list_worktrees s)) = Some True)
   \<and> length (list_worktrees s) = length (record_stanzas (split_nl s))
   \<and> (\<forall>k. 0 < k \<and> k < length (list_worktrees s)
            \<and> isMainWorktree (list_worktrees s ! k) = Some True
          \<longrightarrow> ''bare'' \<in> set (snd (record_stanzas (split_nl s) ! k)))"
proof -
  let ?rs = "record_stanzas (split_nl s)"
  let ?ds = "described_records (split_nl s)"
  have eq: "list_worktrees s = mark_first_main ?ds"
    by (rule list_worktrees_described)
  have len: "length (list_worktrees s) = length ?rs"
    by (simp add: eq length_mark_first_main described_records_def)
  have first: "list_worktrees s \<noteq> [] \<longrightarrow> isMainWorktree (hd (list_worktrees s)) = Some True"
  proof
    assume "list_worktrees s \<noteq> []"
    then have "?ds \<noteq> []" by (auto simp: eq mark_first_main_def)
    then show "isMainWorktree (hd (list_worktrees s)) = Some True"
      by (simp add: eq hd_mark_first_main)
  qed
  have later: "''bare'' \<in> set (snd (?rs ! k))"
    if k: "0 < k" "k < length (list_worktrees s)"
      and m: "isMainWorktree (list_worktrees s ! k) = Some True" for k
  proof -
    have kl: "k < length ?rs" using k len by simp
    then have "list_worktrees s ! k = ?ds ! k"
      using k(1) by (simp add: eq mark_first_main_nth described_records_def)
    also have "\<dots> = stanza_record (fst (?rs ! k)) (snd (?rs ! k))"
      using kl by (simp add: described_records_def case_prod_beta)
    finally show ?thesis
      using m by (simp add: stanza_record_def)
  qed
  show ?thesis
    using first len later by blast
qed

theorem list_worktrees_main_flag_witness:
  "list_worktrees sample_porcelain \<noteq> []
   \<and> ''bare'' \<notin> set (snd (record_stanzas (split_nl sample_porcelain) ! 0))
   \<and> isMainWorktree (hd (list_worktrees sample_porcelain)) = Some True
   \<and> (0::nat) < 1 \<and> 1 < length (list_worktrees sample_porcelain)
   \<and> isMainWorktree (list_worktrees sample_porcelain ! 1) = Some True
   \<and> ''bare'' \<in> set (snd (record_stanzas (split_nl sample_porcelain) ! 1))"
proof -
  have h1: "list_worktrees sample_porcelain \<noteq> []"
    by code_simp
  have h2: "''bare'' \<notin> set (snd (record_stanzas (split_nl sample_porcelain) ! 0))"
    by code_simp
  have h3: "1 < length (list_worktrees sample_porcelain)"
    by code_simp
  have h4: "isMainWorktree (list_worktrees sample_porcelain ! 1) = Some True"
    by code_simp
  show ?thesis
    using list_worktrees_main_flag [of sample_porcelain] h1 h2 h3 h4 by simp
qed

section \<open>Properties of the AgentSessionManager\<close>

subsection \<open>Ids\<close>

lemma digit_char_inj: "a < 10 \<Longrightarrow> b < 10 \<Longrightarrow> digit_char a = digit_char b \<Longrightarrow> a = b"
proof -
  assume a: "a < 10" and b: "b < 10" and e: "digit_char a = digit_char b"
  have d: "distinct ''0123456789''" by simp
  have "length ''0123456789'' = 10" by simp
  with a b e d show ?thesis
    unfolding digit_char_def by (metis nth_eq_iff_index_eq)
qed

lemma string_of_nat_nonempty [simp]: "string_of_nat n \<noteq> []" "[] \<noteq> string_of_nat n"
  by (subst string_of_nat.simps, simp)+

lemma last_string_of_nat: "last (string_of_nat n) = digit_char (n mod 10)"
  by (subst string_of_nat.simps) simp

lemma butlast_string_of_nat:
  "butlast (string_of_nat n) = (if n < 10 then [] else string_of_nat (n div 10))"
  by (subst string_of_nat.simps) simp

lemma string_of_nat_inj: "string_of_nat n = string_of_nat m \<Longrightarrow> n = m"
proof (induction n arbitrary: m rule: string_of_nat.induct)
  case (1 n)
  have l: "digit_char (n mod 10) = digit_char (m mod 10)"
    using "1.prems" last_string_of_nat by metis
  then have md: "n mod 10 = m mod 10"
    by (rule digit_char_inj [rotated 2]) simp_all
  have bl: "butlast (string_of_nat n) = butlast (string_of_nat m)"
    using "1.prems" by simp
  show ?case
  proof (cases "n < 10")
    case True
    with bl have "m < 10"
      by (auto simp: butlast_string_of_nat split: if_splits)
    with True md show ?thesis by simp
  next
    case False
    with bl have m: "\<not> m < 10"
      by (auto simp: butlast_string_of_nat split: if_splits)
    with False bl have "string_of_nat (n div 10) = string_of_nat (m div 10)"
      by (simp add: butlast_string_of_nat)
    then have "n div 10 = m div 10"
      using "1.IH" False by blast
    with md show ?thesis
      by (metis div_mult_mod_eq)
  qed
qed

lemma agent_id_inj: "agent_id n = agent_id m \<Longrightarrow> n = m"
  by (simp add: agent_id_def string_of_nat_inj)

subsection \<open>The invariant\<close>

lemma set_update_subset: "set (AList.update k v al) \<subseteq> insert (k, v) (set al)"
  by (induction al) auto

lemma update_fresh: "k \<notin> fst ` set al \<Longrightarrow> AList.update k v al = al @ [(k, v)]"
  by (induction al) auto

lemma js_increment_mono: "n \<le> js_increment n"
  by (simp add: js_increment_def)

lemma js_increment_pos: "0 < js_increment n"
  by (simp add: js_increment_def)

text \<open>Dropping entries keeps both invariants.\<close>

lemma inv_filter:
  assumes "manager_inv m" "ids_issued m"
    and P: "sessions m' = filter P (sessions m)" and c: "counter m' = counter m"
  shows "manager_inv m' \<and> ids_issued m'"
proof -
  have "distinct (map fst (filter P (sessions m)))"
    using assms(1) by (simp add: manager_inv_def distinct_map_filter)
  then show ?thesis
    using assms(1,2) by (auto simp: manager_inv_def ids_issued_def P c)
qed

lemma create_inv:
  assumes "manager_inv m" "ids_issued m"
  shows "manager_inv (snd (create spawn ag wd cb m)) \<and> ids_issued (snd (create spawn ag wd cb m))"
proof (cases "spawn wd")
  case (Inl e)
  let ?n = "js_increment (counter m)"
  have st: "snd (create spawn ag wd cb m) = m\<lparr>counter := ?n\<rparr>"
    by (simp add: create_def Let_def Inl)
  have "\<exists>j. 0 < j \<and> j \<le> ?n \<and> k = agent_id j" if "k \<in> fst ` set (sessions m)" for k
  proof -
    from that obtain j where j: "0 < j" "j \<le> counter m" "k = agent_id j"
      using assms(2) by (auto simp: ids_issued_def)
    have "j \<le> ?n"
      using j(2) js_increment_mono [of "counter m"] by (rule le_trans)
    with j show ?thesis by blast
  qed
  moreover have "?n \<le> 2 ^ 53"
    using assms(2) by (simp add: ids_issued_def js_increment_def)
  ultimately show ?thesis
    using assms(1) unfolding st manager_inv_def ids_issued_def by simp
next
  case (Inr proc)
  let ?n = "js_increment (counter m)"
  let ?s = "\<lparr>session_id = agent_id ?n, process = proc, agent = ag, workdir = wd, onMessage = cb\<rparr>"
  have ss: "sessions (snd (create spawn ag wd cb m)) = AList.update (agent_id ?n) ?s (sessions m)"
    and cc: "counter (snd (create spawn ag wd cb m)) = ?n"
    by (simp_all add: create_def Let_def Inr)
  have 1: "\<forall>e \<in> set (AList.update (agent_id ?n) ?s (sessions m)). session_id (snd e) = fst e"
    using assms(1) set_update_subset [of "agent_id ?n" ?s "sessions m"]
    by (auto simp: manager_inv_def)
  have 2: "distinct (map fst (AList.update (agent_id ?n) ?s (sessions m)))"
    using assms(1) by (simp add: manager_inv_def AList.distinct_update)
  have 3: "\<exists>j. 0 < j \<and> j \<le> ?n \<and> k = agent_id j"
    if "k \<in> fst ` set (AList.update (agent_id ?n) ?s (sessions m))" for k
  proof -
    from that have "k = agent_id ?n \<or> k \<in> fst ` set (sessions m)"
      by (simp add: AList.dom_update)
    then show ?thesis
    proof
      assume "k = agent_id ?n"
      then show ?thesis using js_increment_pos by blast
    next
      assume "k \<in> fst ` set (sessions m)"
      then obtain j where j: "0 < j" "j \<le> counter m" "k = agent_id j"
        using assms(2) by (auto simp: ids_issued_def)
      have "j \<le> ?n"
        using j(2) js_increment_mono [of "counter m"] by (rule le_trans)
      with j show ?thesis by blast
    qed
  qed
  have 4: "?n \<le> 2 ^ 53"
    using assms(2) by (simp add: ids_issued_def js_increment_def)
  show ?thesis
    unfolding manager_inv_def ids_issued_def ss cc using 1 2 3 4 by blast
qed

lemma send_state:
  "sessions (snd (send enc sid txt m)) = sessions m \<and> counter (snd (send enc sid txt m)) = counter m"
  by (simp add: send_def split: option.splits)

lemma send_inv:
  assumes "manager_inv m" "ids_issued m"
  shows "manager_inv (snd (send enc sid txt m)) \<and> ids_issued (snd (send enc sid txt m))"
  by (rule inv_filter [OF assms, where P = "\<lambda>_. True"]) (simp_all add: send_state)

lemma stop_inv:
  assumes "manager_inv m" "ids_issued m"
  shows "manager_inv (stop sid m) \<and> ids_issued (stop sid m)"
proof (cases "map_of (sessions m) sid")
  case None
  then have "stop sid m = m" by (simp add: stop_def)
  with assms show ?thesis by simp
next
  case (Some a)
  show ?thesis
    by (rule inv_filter [OF assms, where P = "\<lambda>(k, _). sid \<noteq> k"])
      (simp_all add: stop_def Some AList.delete_eq)
qed

lemma stopAll_inv:
  assumes "manager_inv m" "ids_issued m"
  shows "manager_inv (stopAll m) \<and> ids_issued (stopAll m)"
  by (rule inv_filter [OF assms, where P = "\<lambda>_. False"]) (simp_all add: stopAll_def)

lemma on_exit_inv:
  assumes "manager_inv m" "ids_issued m"
  shows "manager_inv (on_exit sid m) \<and> ids_issued (on_exit sid m)"
  by (rule inv_filter [OF assms, where P = "\<lambda>(k, _). sid \<noteq> k"])
    (simp_all add: on_exit_def AList.delete_eq)

subsection \<open>stopByWorkdir as a filter\<close>

lemma stopByWorkdir_fold:
  "foldl (stopByWorkdir_step lower wd) m xs =
     m\<lparr>effects := effects m @ map (\<lambda>e. Kill (process (snd e))) (filter (\<lambda>e. under_workdir lower wd (snd e)) xs),
       sessions := filter (\<lambda>e. fst e \<notin> fst ` set (filter (\<lambda>e. under_workdir lower wd (snd e)) xs)) (sessions m)\<rparr>"
proof (induction xs arbitrary: m)
  case Nil
  then show ?case by simp
next
  case (Cons x xs)
  let ?f = "stopByWorkdir_step lower wd"
  let ?hit = "\<lambda>e. under_workdir lower wd (snd e)"
  have "foldl ?f m (x # xs) = foldl ?f (?f m x) xs"
    by simp
  also have "\<dots> = (?f m x)\<lparr>effects := effects (?f m x) @ map (\<lambda>e. Kill (process (snd e))) (filter ?hit xs),
       sessions := filter (\<lambda>e. fst e \<notin> fst ` set (filter ?hit xs)) (sessions (?f m x))\<rparr>"
    by (rule Cons.IH)
  also have "\<dots> = m\<lparr>effects := effects m @ map (\<lambda>e. Kill (process (snd e))) (filter ?hit (x # xs)),
       sessions := filter (\<lambda>e. fst e \<notin> fst ` set (filter ?hit (x # xs))) (sessions m)\<rparr>"
  proof (cases "?hit x")
    case True
    have "filter (\<lambda>e. fst e \<notin> fst ` set (filter ?hit xs)) (AList.delete (fst x) (sessions m))
          = filter (\<lambda>e. fst e \<notin> fst ` set (filter ?hit (x # xs))) (sessions m)"
      using True by (auto simp: AList.delete_eq case_prod_beta intro!: filter_cong)
    with True show ?thesis
      by (simp add: stopByWorkdir_step_def)
  next
    case False
    then show ?thesis
      by (simp add: stopByWorkdir_step_def)
  qed
  finally show ?case .
qed

lemma stopByWorkdir_eq:
  assumes "distinct (map fst (sessions m))"
  shows "stopByWorkdir lower wd m =
     m\<lparr>effects := effects m @ map (\<lambda>e. Kill (process (snd e))) (filter (\<lambda>e. under_workdir lower wd (snd e)) (sessions m)),
       sessions := filter (\<lambda>e. \<not> under_workdir lower wd (snd e)) (sessions m)\<rparr>"
proof -
  let ?hit = "\<lambda>e. under_workdir lower wd (snd e)"
  have "fst e \<notin> fst ` set (filter ?hit (sessions m)) \<longleftrightarrow> \<not> ?hit e"
    if e: "e \<in> set (sessions m)" for e
  proof
    assume "fst e \<notin> fst ` set (filter ?hit (sessions m))"
    then show "\<not> ?hit e" using e by force
  next
    assume n: "\<not> ?hit e"
    show "fst e \<notin> fst ` set (filter ?hit (sessions m))"
    proof
      assume "fst e \<in> fst ` set (filter ?hit (sessions m))"
      then obtain e' where e': "e' \<in> set (sessions m)" "?hit e'" "fst e' = fst e"
        by auto
      then have "e' = e"
        using assms e by (metis eq_key_imp_eq_value prod.collapse)
      with n e'(2) show False by simp
    qed
  qed
  then have "filter (\<lambda>e. fst e \<notin> fst ` set (filter ?hit (sessions m))) (sessions m)
             = filter (\<lambda>e. \<not> ?hit e) (sessions m)"
    by (intro filter_cong) auto
  then show ?thesis
    by (simp add: stopByWorkdir_def stopByWorkdir_fold)
qed

lemma stopByWorkdir_inv:
  assumes "manager_inv m" "ids_issued m"
  shows "manager_inv (stopByWorkdir lower wd m) \<and> ids_issued (stopByWorkdir lower wd m)"
proof -
  have d: "distinct (map fst (sessions m))"
    using assms(1) by (simp add: manager_inv_def)
  show ?thesis
    by (rule inv_filter [OF assms, where P = "\<lambda>e. \<not> under_workdir lower wd (snd e)"])
      (simp_all add: stopByWorkdir_eq [OF d])
qed

subsection \<open>Reachable states\<close>

lemma init_inv: "manager_inv init_manager \<and> ids_issued init_manager"
  by (simp add: manager_inv_def ids_issued_def init_manager_def)

lemma reachable_inv: "reachable m \<Longrightarrow> manager_inv m \<and> ids_issued m"
proof (induction rule: reachable.induct)
  case r_init
  show ?case by (rule init_inv)
next
  case (r_create m spawn agent_meta wd cb)
  then have "manager_inv m" "ids_issued m" by simp_all
  then show ?case by (rule create_inv)
next
  case (r_send m encode_request sessionId msg_content)
  then have "manager_inv m" "ids_issued m" by simp_all
  then show ?case by (rule send_inv)
next
  case (r_stop m sessionId)
  then have "manager_inv m" "ids_issued m" by simp_all
  then show ?case by (rule stop_inv)
next
  case (r_stopAll m)
  then have "manager_inv m" "ids_issued m" by simp_all
  then show ?case by (rule stopAll_inv)
next
  case (r_stopByWorkdir m lower wd)
  then have "manager_inv m" "ids_issued m" by simp_all
  then show ?case by (rule stopByWorkdir_inv)
next
  case (r_exit m sid)
  then have "manager_inv m" "ids_issued m" by simp_all
  then show ?case by (rule on_exit_inv)
qed

lemma create_fresh:
  assumes "ids_issued m" "counter m < 2 ^ 53"
  shows "agent_id (counter m + 1) \<notin> fst ` set (sessions m)"
proof
  assume "agent_id (counter m + 1) \<in> fst ` set (sessions m)"
  then obtain n where "n \<le> counter m" "agent_id (counter m + 1) = agent_id n"
    using assms(1) by (auto simp: ids_issued_def)
  then show False
    using agent_id_inj by fastforce
qed

lemma create_below_limit:
  assumes "ids_issued m" "counter m < 2 ^ 53" "spawn wd = Inr proc"
  shows "create spawn ag wd cb m =
     (Inr (agent_id (counter m + 1)),
      m\<lparr>counter := counter m + 1,
        effects := effects m @ [Spawn wd proc],
        sessions := sessions m @
          [(agent_id (counter m + 1),
            \<lparr>session_id = agent_id (counter m + 1), process = proc, agent = ag,
             workdir = wd, onMessage = cb\<rparr>)]\<rparr>)"
  using assms(2,3) create_fresh [OF assms(1,2)]
  by (simp add: create_def js_increment_def update_fresh Let_def)

lemma create_spawn_throws:
  assumes "spawn wd = Inl e"
  shows "create spawn ag wd cb m = (Inl e, m\<lparr>counter := js_increment (counter m)\<rparr>)"
  using assms by (simp add: create_def Let_def)

subsection \<open>Sample states\<close>

lemma agent_id_samples:
  "agent_id (Suc 0) = ''agent-1''" "agent_id 2 = ''agent-2''"
  "agent_id (Suc (Suc 0)) = ''agent-2''"
  by (simp_all add: agent_id_def string_of_nat.simps digit_char_def)

lemma one_session_value:
  "one_session = \<lparr>sessions = [(''agent-1'', \<lparr>session_id = ''agent-1'', process = 1, agent = (),
       workdir = ''C:/Repo/wt'', onMessage = ()\<rparr>)], counter = 1, effects = [Spawn ''C:/Repo/wt'' 1]\<rparr>"
  by (simp add: one_session_def create_def init_manager_def js_increment_def agent_id_samples
      node_spawn_def Let_def)

lemma two_sessions_value:
  "two_sessions = \<lparr>sessions =
      [(''agent-1'', \<lparr>session_id = ''agent-1'', process = 1, agent = (),
          workdir = ''C:/Repo/wt'', onMessage = ()\<rparr>),
       (''agent-2'', \<lparr>session_id = ''agent-2'', process = 2, agent = (),
          workdir = ''/other'', onMessage = ()\<rparr>)],
     counter = 2, effects = [Spawn ''C:/Repo/wt'' 1, Spawn ''/other'' 2]\<rparr>"
  by (simp add: two_sessions_def one_session_value create_def js_increment_def agent_id_samples
      node_spawn_def Let_def)

subsection \<open>The claims\<close>

text \<open>
  C6, as amended. In every state that \<open>create\<close>, \<open>send\<close>, \<open>stop\<close>, \<open>stopAll\<close>,
  \<open>stopByWorkdir\<close> and the exit callback reach from the new manager, each entry's key is
  the id in its session record and no key occurs twice. When \<open>spawn\<close> returns a handle
  and the counter is below \<open>2^53\<close> (where a JavaScript number still counts exactly),
  \<open>create\<close> adds one to the counter, returns the id \<open>agent-<n>\<close> for the new value, which
  is not a key of the map, and appends the new entry, leaving every other entry as it was.
  When \<open>spawn\<close> throws, \<open>create\<close> ends with that value: the counter has been incremented
  and the map is unchanged.
\<close>

theorem manager_map_invariant:
  assumes "reachable m"
  shows "manager_inv m
    \<and> (\<forall>e. spawn wd = Inl e \<longrightarrow>
         create spawn ag wd cb m = (Inl e, m\<lparr>counter := js_increment (counter m)\<rparr>))
    \<and> (\<forall>proc. spawn wd = Inr proc \<and> counter m < 2 ^ 53 \<longrightarrow>
         agent_id (counter m + 1) \<notin> fst ` set (sessions m)
         \<and> counter m < counter (snd (create spawn ag wd cb m))
         \<and> create spawn ag wd cb m =
             (Inr (agent_id (counter m + 1)),
              m\<lparr>counter := counter m + 1,
                effects := effects m @ [Spawn wd proc],
                sessions := sessions m @
                  [(agent_id (counter m + 1),
                    \<lparr>session_id = agent_id (counter m + 1), process = proc, agent = ag,
                     workdir = wd, onMessage = cb\<rparr>)]\<rparr>))"
proof (intro conjI allI impI)
  have i: "manager_inv m" "ids_issued m"
    using reachable_inv [OF assms] by simp_all
  show "manager_inv m" by (rule i(1))
  show "create spawn ag wd cb m = (Inl e, m\<lparr>counter := js_increment (counter m)\<rparr>)"
    if "spawn wd = Inl e" for e
    using that by (rule create_spawn_throws)
  fix proc
  assume a: "spawn wd = Inr proc \<and> counter m < 2 ^ 53"
  then have c: "counter m < 2 ^ 53" and s: "spawn wd = Inr proc" by simp_all
  show "agent_id (counter m + 1) \<notin> fst ` set (sessions m)"
    by (rule create_fresh [OF i(2) c])
  show eq: "create spawn ag wd cb m =
             (Inr (agent_id (counter m + 1)),
              m\<lparr>counter := counter m + 1,
                effects := effects m @ [Spawn wd proc],
                sessions := sessions m @
                  [(agent_id (counter m + 1),
                    \<lparr>session_id = agent_id (counter m + 1), process = proc, agent = ag,
                     workdir = wd, onMessage = cb\<rparr>)]\<rparr>)"
    using i(2) c s by (rule create_below_limit)
  show "counter m < counter (snd (create spawn ag wd cb m))"
    by (simp add: eq)
qed

theorem manager_map_invariant_witness:
  "reachable one_session \<and> manager_inv one_session
   \<and> node_spawn 2 ''/other'' = Inr 2 \<and> counter one_session < 2 ^ 53
   \<and> ''agent-2'' \<notin> fst ` set (sessions one_session)
   \<and> create (node_spawn 2) () ''/other'' () one_session = (Inr ''agent-2'', two_sessions)
   \<and> node_spawn 3 [CHR 0x00] =
        Inl (JsError ''The property options.cwd must be a string without null bytes'')
   \<and> create (node_spawn 3) () [CHR 0x00] () one_session =
        (Inl (JsError ''The property options.cwd must be a string without null bytes''),
         one_session\<lparr>counter := 2\<rparr>)"
proof -
  have r: "reachable one_session"
    unfolding one_session_def by (rule r_create [OF r_init])
  have c: "counter one_session < 2 ^ 53"
    by (simp add: one_session_value)
  have s: "node_spawn 2 ''/other'' = Inr 2"
    "node_spawn 3 [CHR 0x00] =
        Inl (JsError ''The property options.cwd must be a string without null bytes'')"
    by (simp_all add: node_spawn_def)
  have t: "two_sessions = one_session\<lparr>counter := counter one_session + 1,
                effects := effects one_session @ [Spawn ''/other'' 2],
                sessions := sessions one_session @
                  [(''agent-2'',
                    \<lparr>session_id = ''agent-2'', process = 2, agent = (),
                     workdir = ''/other'', onMessage = ()\<rparr>)]\<rparr>"
    by (simp add: two_sessions_value one_session_value)
  have n: "agent_id (counter one_session + 1) = ''agent-2''"
    by (simp add: one_session_value agent_id_samples)
  have j: "js_increment (counter one_session) = 2"
    by (simp add: one_session_value js_increment_def)
  note ok = manager_map_invariant [OF r, of "node_spawn 2" "''/other''" "()" "()"]
  note ko = manager_map_invariant [OF r, of "node_spawn 3" "[CHR 0x00]" "()" "()"]
  have 1: "manager_inv one_session"
    using ok by (rule conjunct1)
  have 2: "''agent-2'' \<notin> fst ` set (sessions one_session)
      \<and> create (node_spawn 2) () ''/other'' () one_session = (Inr ''agent-2'', two_sessions)"
    using ok [THEN conjunct2, THEN conjunct2] s(1) c
    by (simp only: n t [symmetric]) simp
  have 3: "create (node_spawn 3) () [CHR 0x00] () one_session =
        (Inl (JsError ''The property options.cwd must be a string without null bytes''),
         one_session\<lparr>counter := 2\<rparr>)"
    using ko [THEN conjunct2, THEN conjunct1] s(2)
    by (simp only: j simp_thms)
  show ?thesis
    using r c s 1 2 3 by simp
qed

text \<open>
  C6 as stated fails where \<open>spawn\<close> throws: with a NUL character in the working
  directory, \<open>create\<close> on the new manager ends with the error, the counter is 1 and the
  map is still empty, so no id has been installed.
\<close>

theorem manager_create_counterexample:
  "reachable (init_manager :: (nat, unit, unit) manager)
   \<and> create (node_spawn 1) () [CHR 0x00] () init_manager =
       (Inl (JsError ''The property options.cwd must be a string without null bytes''),
        \<lparr>sessions = [], counter = 1, effects = []\<rparr>)"
proof -
  have "reachable (init_manager :: (nat, unit, unit) manager)"
    by (rule r_init)
  moreover have "create (node_spawn 1) () [CHR 0x00] () (init_manager :: (nat, unit, unit) manager) =
       (Inl (JsError ''The property options.cwd must be a string without null bytes''),
        \<lparr>sessions = [], counter = 1, effects = []\<rparr>)"
    by (simp add: create_def node_spawn_def init_manager_def js_increment_def Let_def)
  ultimately show ?thesis by simp
qed

text \<open>
  C10. On a map (no key twice), \<open>stopByWorkdir(d)\<close> kills, in map order, the process of
  each session whose normalized workdir equals the normalized \<open>d\<close> or starts with it
  followed by \<open>/\<close>, and removes exactly those entries; every other entry, and the
  counter, stay as they were. Normalizing replaces each backslash by a slash and then
  lower-cases.
\<close>

theorem stopByWorkdir_exact:
  assumes "distinct (map fst (sessions m))"
  shows "sessions (stopByWorkdir lower d m) =
           filter (\<lambda>e. \<not> under_workdir lower d (snd e)) (sessions m)
    \<and> effects (stopByWorkdir lower d m) =
           effects m @ map (\<lambda>e. Kill (process (snd e)))
             (filter (\<lambda>e. under_workdir lower d (snd e)) (sessions m))
    \<and> counter (stopByWorkdir lower d m) = counter m
    \<and> (under_workdir lower d s \<longleftrightarrow>
         lower (replace_all_char (workdir s) backslash ''/'') = lower (replace_all_char d backslash ''/'')
         \<or> (\<exists>rest. lower (replace_all_char (workdir s) backslash ''/'') =
                lower (replace_all_char d backslash ''/'') @ ''/'' @ rest))"
proof -
  have "startsWith x y \<longleftrightarrow> (\<exists>rest. x = y @ rest)" for x y :: string
    unfolding startsWith_def by (metis append_eq_conv_conj append_take_drop_id)
  then have "under_workdir lower d s \<longleftrightarrow>
         lower (replace_all_char (workdir s) backslash ''/'') = lower (replace_all_char d backslash ''/'')
         \<or> (\<exists>rest. lower (replace_all_char (workdir s) backslash ''/'') =
                lower (replace_all_char d backslash ''/'') @ ''/'' @ rest)"
    by (simp add: under_workdir_def normalize_dir_def Let_def)
  then show ?thesis
    by (simp add: stopByWorkdir_eq [OF assms])
qed

theorem stopByWorkdir_exact_witness:
  "distinct (map fst (sessions two_sessions))
   \<and> sessions (stopByWorkdir ascii_lower (''c:'' @ backslash # ''repo'') two_sessions) =
       [(''agent-2'', \<lparr>session_id = ''agent-2'', process = 2, agent = (),
          workdir = ''/other'', onMessage = ()\<rparr>)]
   \<and> effects (stopByWorkdir ascii_lower (''c:'' @ backslash # ''repo'') two_sessions) =
       [Spawn ''C:/Repo/wt'' 1, Spawn ''/other'' 2, Kill 1]"
proof -
  have d: "distinct (map fst (sessions two_sessions))"
    by (simp add: two_sessions_value)
  have u1: "under_workdir ascii_lower (''c:'' @ backslash # ''repo'')
      \<lparr>session_id = ''agent-1'', process = 1::nat, agent = (), workdir = ''C:/Repo/wt'', onMessage = ()\<rparr>"
    by (simp add: under_workdir_def normalize_dir_def ascii_lower_def replace_all_char_def
        backslash_def startsWith_def)
  have u2: "\<not> under_workdir ascii_lower (''c:'' @ backslash # ''repo'')
      \<lparr>session_id = ''agent-2'', process = 2::nat, agent = (), workdir = ''/other'', onMessage = ()\<rparr>"
    by (simp add: under_workdir_def normalize_dir_def ascii_lower_def replace_all_char_def
        backslash_def startsWith_def)
  show ?thesis
    using stopByWorkdir_exact [OF d, of ascii_lower "''c:'' @ backslash # ''repo''" sample_session]
      d u1 u2
    by (simp add: two_sessions_value)
qed

subsection \<open>The stdout handler\<close>

lemma split_nl_nonempty [simp]: "split_nl s \<noteq> []"
  by (induction s) (auto split: list.splits)

lemma split_nl_Cons_other:
  "c \<noteq> newline \<Longrightarrow> split_nl (c # cs) = (c # hd (split_nl cs)) # tl (split_nl cs)"
  by (cases "split_nl cs") simp_all

text \<open>Splitting a concatenation: the last piece of the first part is continued by the second.\<close>

lemma split_nl_append:
  "split_nl (a @ b) = butlast (split_nl a) @ split_nl (last (split_nl a) @ b)"
proof (induction a)
  case Nil
  then show ?case by simp
next
  case (Cons c cs)
  show ?case
  proof (cases "c = newline")
    case True
    then show ?thesis using Cons.IH by simp
  next
    case False
    obtain l ls where ls: "split_nl cs = l # ls"
      by (cases "split_nl cs") simp_all
    show ?thesis
    proof (cases "ls = []")
      case True
      then show ?thesis
        using False Cons.IH ls by (simp add: split_nl_Cons_other del: split_nl.simps)
    next
      case n: False
      then show ?thesis
        using False Cons.IH ls by (simp add: split_nl_Cons_other del: split_nl.simps)
    qed
  qed
qed

lemma split_nl_no_newline: "l \<in> set (split_nl s) \<Longrightarrow> newline \<notin> set l"
proof (induction s arbitrary: l)
  case Nil
  then show ?case by simp
next
  case (Cons c cs)
  show ?case
  proof (cases "c = newline")
    case True
    with Cons show ?thesis by auto
  next
    case False
    obtain h t where ht: "split_nl cs = h # t"
      by (cases "split_nl cs") simp_all
    with Cons False show ?thesis by auto
  qed
qed

lemma split_nl_join:
  "concat (map (\<lambda>l. l @ [newline]) (butlast (split_nl s))) @ last (split_nl s) = s"
proof (induction s)
  case Nil
  then show ?case by simp
next
  case (Cons c cs)
  obtain h t where ht: "split_nl cs = h # t"
    by (cases "split_nl cs") simp_all
  with Cons show ?case by (cases "t = []") auto
qed

lemma split_nl_plain: "newline \<notin> set s \<Longrightarrow> split_nl s = [s]"
  by (induction s) auto

lemma on_stdout_data_eq:
  "on_stdout_data trim parse stringify session (buf, log) chunk =
     (last (split_nl (buf @ chunk)),
      log @ concat (map (stdout_line trim parse stringify session) (butlast (split_nl (buf @ chunk)))))"
  by (simp add: on_stdout_data_def js_pop_def or_empty_def Let_def)

lemma stdout_stream_from:
  "newline \<notin> set buf \<Longrightarrow>
   foldl (on_stdout_data trim parse stringify session) (buf, log) chunks =
     (last (split_nl (buf @ concat chunks)),
      log @ concat (map (stdout_line trim parse stringify session)
                     (butlast (split_nl (buf @ concat chunks)))))"
proof (induction chunks arbitrary: buf log)
  case Nil
  then show ?case by (simp add: split_nl_plain)
next
  case (Cons c cs)
  have sp: "split_nl (buf @ c @ concat cs) =
        butlast (split_nl (buf @ c)) @ split_nl (last (split_nl (buf @ c)) @ concat cs)"
    using split_nl_append [of "buf @ c" "concat cs"] by simp
  have "newline \<notin> set (last (split_nl (buf @ c)))"
    by (rule split_nl_no_newline [of _ "buf @ c"]) simp
  then show ?case
    by (simp add: on_stdout_data_eq Cons.IH sp butlast_append)
qed

text \<open>
  C7. Starting from the empty buffer, after any sequence of stdout chunks the buffer
  holds the text after the last newline received, and the callback has been called once,
  in order, for each newline-terminated line of the whole stream whose trimmed text is
  not empty and which parses; blank lines and lines that do not parse produce nothing. The
  newline-terminated lines followed by the buffer are the stream itself, and no line
  holds a newline. Each single chunk is appended to the buffer before it is split.
\<close>

theorem stdout_framing:
  "foldl (on_stdout_data trim parse stringify session) ([], log) chunks =
     (last (split_nl (concat chunks)),
      log @ concat (map (stdout_line trim parse stringify session)
                     (butlast (split_nl (concat chunks)))))
   \<and> concat (map (\<lambda>l. l @ [newline]) (butlast (split_nl (concat chunks))))
       @ last (split_nl (concat chunks)) = concat chunks
   \<and> (\<forall>l \<in> set (split_nl (concat chunks)). newline \<notin> set l)
   \<and> on_stdout_data trim parse stringify session (buf, log) chunk =
       (last (split_nl (buf @ chunk)),
        log @ concat (map (stdout_line trim parse stringify session)
                       (butlast (split_nl (buf @ chunk)))))
   \<and> stdout_line trim parse stringify session line =
       (if trim line = [] then []
        else case parse line of
               None \<Rightarrow> []
             | Some j \<Rightarrow> [OnMessage (session_id session)
                           \<lparr>role = ''assistant'', content = stringify j\<rparr>])"
proof -
  have "foldl (on_stdout_data trim parse stringify session) ([], log) chunks =
     (last (split_nl (concat chunks)),
      log @ concat (map (stdout_line trim parse stringify session)
                     (butlast (split_nl (concat chunks)))))"
    using stdout_stream_from [of "[]" trim parse stringify session log chunks] by simp
  moreover have "stdout_line trim parse stringify session line =
       (if trim line = [] then []
        else case parse line of
               None \<Rightarrow> []
             | Some j \<Rightarrow> [OnMessage (session_id session)
                           \<lparr>role = ''assistant'', content = stringify j\<rparr>])"
    by (simp add: stdout_line_def handleMessage_def split: option.splits)
  ultimately show ?thesis
    using split_nl_join [of "concat chunks"] split_nl_no_newline [of _ "concat chunks"]
      on_stdout_data_eq [of trim parse stringify session buf log chunk]
    by blast
qed

theorem stdout_framing_witness:
  "foldl (on_stdout_data toy_trim toy_parse (\<lambda>j. j) sample_session) ([], []) sample_chunks =
     (''{b'',
      [OnMessage ''agent-1'' \<lparr>role = ''assistant'', content = ''{a:1}''\<rparr>,
       OnMessage ''agent-1'' \<lparr>role = ''assistant'', content = ''{}''\<rparr>])
   \<and> split_nl (concat sample_chunks) = [''{a:1}'', ''  '', ''nope'', ''{}'', ''{b'']
   \<and> ''nope'' \<in> set (split_nl (concat sample_chunks))
   \<and> newline \<notin> set ''nope''"
proof -
  have s: "split_nl (concat sample_chunks) = [''{a:1}'', ''  '', ''nope'', ''{}'', ''{b'']"
    by code_simp
  have l: "concat (map (stdout_line toy_trim toy_parse (\<lambda>j. j) sample_session)
              [''{a:1}'', ''  '', ''nope'', ''{}'']) =
      [OnMessage ''agent-1'' \<lparr>role = ''assistant'', content = ''{a:1}''\<rparr>,
       OnMessage ''agent-1'' \<lparr>role = ''assistant'', content = ''{}''\<rparr>]"
    by code_simp
  show ?thesis
    using stdout_framing [of toy_trim toy_parse "\<lambda>j. j" sample_session "[]" sample_chunks
        "[]" "[]" "[]"] l
    by (simp add: s)
qed

section \<open>Properties of WorktreeService.remove and of the handler\<close>

subsection \<open>Each step as an answer and a trace\<close>

lemma kill_never_throws: "fst (killProcessesInDirectory E p t) = Inr ()"
  by (simp add: killProcessesInDirectory_def split: sum.splits)

lemma kill_trace: "snd (killProcessesInDirectory E p t) = t @ kill_calls E p"
  by (simp add: killProcessesInDirectory_def kill_calls_def split: sum.splits)

lemma kill_eq: "killProcessesInDirectory E p t = (Inr (), t @ kill_calls E p)"
  using kill_never_throws [of E p t] kill_trace [of E p t]
  by (metis prod.collapse)

lemma manual_delete_eq:
  "manual_delete E p t =
     (case delete_answer E t p of
        Inl _ \<Rightarrow> (Inl (removal_failed p), t @ [delete_call E p])
      | Inr _ \<Rightarrow> (Inr (), t @ [delete_call E p]))"
  by (simp add: manual_delete_def delete_answer_def delete_call_def split: sum.splits)

lemma prune_eq:
  "prune E t =
     (case git_raw E t prune_args of
        Inl e \<Rightarrow> (Inl e, t @ [prune_call])
      | Inr _ \<Rightarrow> (Inr (), t @ [prune_call]))"
  by (simp add: prune_def git_raw_call_def prune_args_def prune_call_def split: sum.splits)

lemma delete_branch_eq: "delete_branch E options t = (Inr (), t @ branch_calls options)"
  by (simp add: delete_branch_def branch_calls_def git_raw_call_def split: option.splits sum.splits)

lemma manual_cleanup_eq:
  "manual_cleanup E options t =
     (let p = options_path options; t3 = t @ [ExistsSync p];
          t5 = t3 @ kill_calls E p @ [SetTimeout 500]
      in if exists_sync E t p then
           (case delete_answer E t5 p of
              Inl _ \<Rightarrow> (Inl (removal_failed p), t5 @ [delete_call E p])
            | Inr _ \<Rightarrow> prune E (t5 @ [delete_call E p]))
         else prune E t3)"
  by (simp add: manual_cleanup_def kill_eq manual_delete_eq Let_def split: sum.splits)

lemma remove_eq:
  "remove E options t =
     (let p = options_path options;
          t1 = t @ [prune_call];
          t2 = t1 @ [remove_call options];
          t3 = t2 @ [ExistsSync p];
          t5 = t3 @ kill_calls E p @ [SetTimeout 500];
          t6 = t5 @ [delete_call E p]
      in case git_raw E t prune_args of
           Inl e \<Rightarrow> (Inl e, t1)
         | Inr _ \<Rightarrow>
            (case git_raw E t1 (remove_args options) of
               Inr _ \<Rightarrow> (Inr (), t2 @ branch_calls options)
             | Inl e \<Rightarrow>
                 if \<not> message_matches (error_message e) then (Inl e, t2)
                 else if \<not> exists_sync E t2 p then
                   (case git_raw E t3 prune_args of
                      Inl e' \<Rightarrow> (Inl e', t3 @ [prune_call])
                    | Inr _ \<Rightarrow> (Inr (), t3 @ [prune_call] @ branch_calls options))
                 else
                   (case delete_answer E t5 p of
                      Inl _ \<Rightarrow> (Inl (removal_failed p), t6)
                    | Inr _ \<Rightarrow>
                       (case git_raw E t6 prune_args of
                          Inl e' \<Rightarrow> (Inl e', t6 @ [prune_call])
                        | Inr _ \<Rightarrow> (Inr (), t6 @ [prune_call] @ branch_calls options)))))"
  by (simp add: remove_def prune_eq manual_cleanup_eq delete_branch_eq git_raw_call_def
      remove_call_def Let_def split: sum.splits)


lemma remove_extends: "\<exists>calls. snd (remove E options t) = t @ calls"
  by (simp add: remove_eq Let_def split: sum.splits)

lemma str_includes_iff: "str_includes s p \<longleftrightarrow> (\<exists>a b. s = a @ p @ b)"
proof (induction s)
  case Nil
  then show ?case by auto
next
  case (Cons c cs)
  have sw: "startsWith (c # cs) p \<longleftrightarrow> (\<exists>b. c # cs = p @ b)"
    unfolding startsWith_def by (metis append_eq_conv_conj append_take_drop_id)
  show ?case
  proof
    assume "str_includes (c # cs) p"
    then consider "startsWith (c # cs) p" | "str_includes cs p" by auto
    then show "\<exists>a b. c # cs = a @ p @ b"
    proof cases
      case 1
      then obtain b where "c # cs = [] @ p @ b" using sw by auto
      then show ?thesis by blast
    next
      case 2
      then obtain a b where "cs = a @ p @ b" using Cons.IH by blast
      then have "c # cs = (c # a) @ p @ b" by simp
      then show ?thesis by blast
    qed
  next
    assume "\<exists>a b. c # cs = a @ p @ b"
    then obtain a b where ab: "c # cs = a @ p @ b" by blast
    show "str_includes (c # cs) p"
    proof (cases a)
      case Nil
      with ab have "startsWith (c # cs) p" using sw by auto
      then show ?thesis by simp
    next
      case (Cons x xs)
      with ab have "cs = xs @ p @ b" by simp
      then show ?thesis using Cons.IH by auto
    qed
  qed
qed

lemma branch_calls_no_exists: "ExistsSync p \<notin> set (branch_calls options)"
  by (simp add: branch_calls_def split: option.splits)

lemma recovery_iff:
  "ExistsSync (options_path options) \<in> set (drop (length t) (snd (remove E options t)))
      \<longleftrightarrow> (\<exists>out e. git_raw E t prune_args = Inr out
                   \<and> git_raw E (t @ [prune_call]) (remove_args options) = Inl e
                   \<and> message_matches (error_message e))"
proof (cases "git_raw E t prune_args")
  case (Inl e)
  then show ?thesis
    by (simp add: remove_eq Let_def prune_call_def)
next
  case pr: (Inr out)
  show ?thesis
  proof (cases "git_raw E (t @ [prune_call]) (remove_args options)")
    case (Inr out')
    then show ?thesis
      using pr branch_calls_no_exists
      by (simp add: remove_eq Let_def prune_call_def remove_call_def)
  next
    case (Inl e)
    show ?thesis
    proof (cases "message_matches (error_message e)")
      case False
      then show ?thesis
        using pr Inl by (simp add: remove_eq Let_def prune_call_def remove_call_def)
    next
      case True
      then have "\<exists>rest. snd (remove E options t) =
          t @ prune_call # remove_call options # ExistsSync (options_path options) # rest"
        using pr Inl by (simp add: remove_eq Let_def split: sum.splits)
      then obtain rest where "snd (remove E options t) =
          t @ prune_call # remove_call options # ExistsSync (options_path options) # rest"
        by blast
      then have "ExistsSync (options_path options) \<in> set (drop (length t) (snd (remove E options t)))"
        by simp
      with pr Inl True show ?thesis by simp
    qed
  qed
qed

lemma recovery_matched:
  assumes "git_raw E t prune_args = Inr out"
    "git_raw E (t @ [prune_call]) (remove_args options) = Inl e"
    "message_matches (error_message e)"
  shows "remove E options t =
              (case manual_cleanup E options (t @ [prune_call, remove_call options]) of
                 (Inl e', t3) \<Rightarrow> (Inl e', t3)
               | (Inr u, t3) \<Rightarrow> delete_branch E options t3)"
  using assms
  by (simp add: remove_def prune_eq git_raw_call_def remove_call_def)

lemma rethrow_unmatched:
  assumes "git_raw E t prune_args = Inr out"
    "git_raw E (t @ [prune_call]) (remove_args options) = Inl e"
    "\<not> message_matches (error_message e)"
  shows "remove E options t = (Inl e, t @ [prune_call, remove_call options])"
  using assms by (simp add: remove_eq Let_def)

lemma message_matches_iff:
  "message_matches msg \<longleftrightarrow>
         (\<exists>a b. msg = a @ ''Permission denied'' @ b)
         \<or> (\<exists>a b. msg = a @ ''is not a working tree'' @ b)"
  by (simp only: message_matches_def Let_def str_includes_iff)

subsection \<open>The handler on its timeline\<close>

lemma env_calls_append [simp]: "env_calls (a @ b) = env_calls a @ env_calls b"
  by (induction a rule: env_calls.induct) simp_all

lemma env_calls_Env [simp]: "env_calls (map Env cs) = cs"
  by (induction cs) simp_all

lemma env_calls_Agent [simp]: "env_calls (map (\<lambda>x. Agent (f x)) xs) = []"
  by (induction xs) simp_all

lemma env_calls_Agent' [simp]: "env_calls (map Agent es) = []"
  by (induction es) simp_all


lemma env_calls_teardown [simp]:
  "env_calls (teardown_events lower p m) =
     [StopWatchersInDirectory p, PtyDestroyByWorkdir p, SetTimeout 1000]"
  by (simp add: teardown_events_def comp_def)






subsection \<open>The claims\<close>

text \<open>
  C8. \<open>killProcessesInDirectory\<close> never throws, whatever the path: off Windows it returns
  without making any call; on Windows it runs the PowerShell script once and returns
  normally whether or not the script fails.
\<close>

theorem killProcessesInDirectory_best_effort:
  "fst (killProcessesInDirectory E dirPath t) = Inr ()
   \<and> (platform E \<noteq> ''win32'' \<longrightarrow> snd (killProcessesInDirectory E dirPath t) = t)
   \<and> (platform E = ''win32'' \<longrightarrow>
        snd (killProcessesInDirectory E dirPath t) = t @ [ExecAsync (kill_command dirPath)])"
  by (simp add: killProcessesInDirectory_def split: sum.splits)

theorem killProcessesInDirectory_best_effort_witness:
  "platform posix_env \<noteq> ''win32''
   \<and> killProcessesInDirectory posix_env ''/repo/wt'' [] = (Inr (), [])
   \<and> platform failing_kill_env = ''win32''
   \<and> exec_async failing_kill_env [] (kill_command ''/repo/wt'') = Inl (JsError ''powershell failed'')
   \<and> killProcessesInDirectory failing_kill_env ''/repo/wt'' [] =
       (Inr (), [ExecAsync (kill_command ''/repo/wt'')])"
proof -
  have p: "platform posix_env \<noteq> ''win32''" "platform failing_kill_env = ''win32''"
    by (simp_all add: posix_env_def failing_kill_env_def)
  have x: "exec_async failing_kill_env [] (kill_command ''/repo/wt'') = Inl (JsError ''powershell failed'')"
    by (simp add: failing_kill_env_def)
  show ?thesis
    using killProcessesInDirectory_best_effort [of posix_env "''/repo/wt''" "[]"]
      killProcessesInDirectory_best_effort [of failing_kill_env "''/repo/wt''" "[]"] p x
    by (simp add: prod_eq_iff)
qed

text \<open>
  C2, as amended. \<open>remove\<close> makes its calls in this order, and a call that throws ends the
  sequence unless said otherwise: \<open>git worktree prune\<close>; \<open>git worktree remove\<close> on the path,
  with \<open>--force\<close> before the path iff \<open>options.force\<close>; if that call throws an error whose
  message matches, \<open>existsSync\<close> on the path and, when the path exists, the kill pass (a
  call on Windows only, whose failure is ignored), the 500 ms delay and the manual
  deletion (\<open>rmdir /s /q\<close> on Windows, a recursive forced \<open>rm\<close> elsewhere), and then,
  whether or not the path existed, \<open>git worktree prune\<close> again; last, when nothing has
  ended the sequence and \<open>deleteBranch\<close> is set with a non-empty \<open>branch\<close>,
  \<open>git branch -D\<close> on the branch.
\<close>

theorem remove_call_sequence:
  "let p = options_path options;
       t1 = t @ [prune_call];
       t2 = t1 @ [remove_call options];
       t3 = t2 @ [ExistsSync p];
       t5 = t3 @ kill_calls E p @ [SetTimeout 500];
       t6 = t5 @ [delete_call E p];
       trace = snd (remove E options t)
   in (\<forall>e. git_raw E t prune_args = Inl e \<longrightarrow> trace = t1)
    \<and> (\<forall>out out'. git_raw E t prune_args = Inr out \<and> git_raw E t1 (remove_args options) = Inr out'
          \<longrightarrow> trace = t2 @ branch_calls options)
    \<and> (\<forall>out e. git_raw E t prune_args = Inr out \<and> git_raw E t1 (remove_args options) = Inl e
          \<and> \<not> message_matches (error_message e)
          \<longrightarrow> trace = t2)
    \<and> (\<forall>out e. git_raw E t prune_args = Inr out \<and> git_raw E t1 (remove_args options) = Inl e
          \<and> message_matches (error_message e) \<and> \<not> exists_sync E t2 p
          \<longrightarrow> trace = t3 @ prune_call #
                (case git_raw E t3 prune_args of Inl e' \<Rightarrow> [] | Inr out' \<Rightarrow> branch_calls options))
    \<and> (\<forall>out e. git_raw E t prune_args = Inr out \<and> git_raw E t1 (remove_args options) = Inl e
          \<and> message_matches (error_message e) \<and> exists_sync E t2 p
          \<longrightarrow> trace = t6 @
                (case delete_answer E t5 p of
                   Inl rmError \<Rightarrow> []
                 | Inr u \<Rightarrow> prune_call #
                     (case git_raw E t6 prune_args of Inl e' \<Rightarrow> [] | Inr out' \<Rightarrow> branch_calls options)))
    \<and> remove_args options =
        [''worktree'', ''remove''] @ (if options_force options then [''--force''] else []) @ [p]"
  by (simp add: remove_eq Let_def remove_args_def split: sum.splits)

theorem remove_call_sequence_witness:
  "git_raw (failing_remove_env ''win32'' (JsError ''error: Permission denied'') True) [] prune_args = Inr []
   \<and> git_raw (failing_remove_env ''win32'' (JsError ''error: Permission denied'') True) [prune_call]
        (remove_args sample_options) = Inl (JsError ''error: Permission denied'')
   \<and> message_matches (error_message (JsError ''error: Permission denied''))
   \<and> exists_sync (failing_remove_env ''win32'' (JsError ''error: Permission denied'') True)
        [prune_call, remove_call sample_options] (options_path sample_options)
   \<and> snd (remove (failing_remove_env ''win32'' (JsError ''error: Permission denied'') True) sample_options []) =
       [GitRaw [''worktree'', ''prune''],
        GitRaw [''worktree'', ''remove'', ''--force'', ''/repo/wt''],
        ExistsSync ''/repo/wt'',
        ExecAsync (kill_command ''/repo/wt''),
        SetTimeout 500,
        ExecAsync (rmdir_command ''/repo/wt''),
        GitRaw [''worktree'', ''prune''],
        GitRaw [''branch'', ''-D'', ''feature'']]"
proof -
  let ?E = "failing_remove_env ''win32'' (JsError ''error: Permission denied'') True"
  have m: "message_matches (error_message (JsError ''error: Permission denied''))"
    by code_simp
  have g1: "git_raw ?E [] prune_args = Inr []"
    by (simp add: failing_remove_env_def prune_args_def)
  have g2: "git_raw ?E [prune_call] (remove_args sample_options) = Inl (JsError ''error: Permission denied'')"
    by (simp add: failing_remove_env_def remove_args_def)
  have x: "exists_sync ?E [prune_call, remove_call sample_options] (options_path sample_options)"
    by (simp add: failing_remove_env_def)
  have rest: "platform ?E = ''win32''" "\<And>t c. exec_async ?E t c = Inr ()"
    "\<And>t. git_raw ?E t [''worktree'', ''prune''] = Inr []"
    by (simp_all add: failing_remove_env_def posix_env_def)
  show ?thesis
    using remove_call_sequence [of sample_options "[]" ?E] m g1 g2 x
    by (simp add: Let_def rest kill_calls_def delete_call_def delete_answer_def branch_calls_def
        prune_call_def remove_call_def prune_args_def remove_args_def sample_options_def)
qed

text \<open>
  C2 as stated fails in both readings of its middle clause. When the matched error comes
  with the path already gone, \<open>git worktree prune\<close> is still run a second time; and when
  \<open>git worktree remove\<close> succeeds, there is no second prune.
\<close>

theorem remove_second_prune_counterexample:
  "snd (remove (failing_remove_env ''linux'' (JsError ''fatal: is not a working tree'') False)
          sample_options []) =
     [GitRaw [''worktree'', ''prune''],
      GitRaw [''worktree'', ''remove'', ''--force'', ''/repo/wt''],
      ExistsSync ''/repo/wt'',
      GitRaw [''worktree'', ''prune''],
      GitRaw [''branch'', ''-D'', ''feature'']]
   \<and> snd (remove posix_env sample_options []) =
     [GitRaw [''worktree'', ''prune''],
      GitRaw [''worktree'', ''remove'', ''--force'', ''/repo/wt''],
      GitRaw [''branch'', ''-D'', ''feature'']]"
  by code_simp

text \<open>
  C3. \<open>remove\<close> goes into the manual cleanup (whose first call is \<open>existsSync\<close> on the
  path) exactly when the first prune succeeded and \<open>git worktree remove\<close> threw a value
  whose message contains \<open>Permission denied\<close> or \<open>is not a working tree\<close>; any other value
  thrown by \<open>git worktree remove\<close> is rethrown as it is, with no further call.
\<close>

theorem remove_recovery_condition:
  "(ExistsSync (options_path options) \<in> set (drop (length t) (snd (remove E options t)))
      \<longleftrightarrow> (\<exists>out e. git_raw E t prune_args = Inr out
                   \<and> git_raw E (t @ [prune_call]) (remove_args options) = Inl e
                   \<and> message_matches (error_message e)))
   \<and> (\<forall>out e. git_raw E t prune_args = Inr out
          \<and> git_raw E (t @ [prune_call]) (remove_args options) = Inl e
          \<and> message_matches (error_message e)
        \<longrightarrow> remove E options t =
              (case manual_cleanup E options (t @ [prune_call, remove_call options]) of
                 (Inl e', t3) \<Rightarrow> (Inl e', t3)
               | (Inr u, t3) \<Rightarrow> delete_branch E options t3))
   \<and> (\<forall>out e. git_raw E t prune_args = Inr out
          \<and> git_raw E (t @ [prune_call]) (remove_args options) = Inl e
          \<and> \<not> message_matches (error_message e)
        \<longrightarrow> remove E options t = (Inl e, t @ [prune_call, remove_call options]))
   \<and> (message_matches msg \<longleftrightarrow>
         (\<exists>a b. msg = a @ ''Permission denied'' @ b)
         \<or> (\<exists>a b. msg = a @ ''is not a working tree'' @ b))
   \<and> error_message (JsError msg) = msg \<and> error_message (NonError msg) = msg"
proof (intro conjI allI impI)
  show "ExistsSync (options_path options) \<in> set (drop (length t) (snd (remove E options t)))
      \<longleftrightarrow> (\<exists>out e. git_raw E t prune_args = Inr out
                   \<and> git_raw E (t @ [prune_call]) (remove_args options) = Inl e
                   \<and> message_matches (error_message e))"
    by (rule recovery_iff)
next
  fix out e
  assume "git_raw E t prune_args = Inr out
          \<and> git_raw E (t @ [prune_call]) (remove_args options) = Inl e
          \<and> message_matches (error_message e)"
  then show "remove E options t =
              (case manual_cleanup E options (t @ [prune_call, remove_call options]) of
                 (Inl e', t3) \<Rightarrow> (Inl e', t3)
               | (Inr u, t3) \<Rightarrow> delete_branch E options t3)"
    using recovery_matched by blast
next
  fix out e
  assume "git_raw E t prune_args = Inr out
          \<and> git_raw E (t @ [prune_call]) (remove_args options) = Inl e
          \<and> \<not> message_matches (error_message e)"
  then show "remove E options t = (Inl e, t @ [prune_call, remove_call options])"
    using rethrow_unmatched by blast
next
  show "message_matches msg \<longleftrightarrow>
         (\<exists>a b. msg = a @ ''Permission denied'' @ b)
         \<or> (\<exists>a b. msg = a @ ''is not a working tree'' @ b)"
    by (rule message_matches_iff)
qed simp_all

theorem remove_recovery_condition_witness:
  "git_raw (failing_remove_env ''linux'' (NonError ''x is not a working tree'') True) [] prune_args = Inr []
   \<and> git_raw (failing_remove_env ''linux'' (NonError ''x is not a working tree'') True) [prune_call]
        (remove_args sample_options) = Inl (NonError ''x is not a working tree'')
   \<and> message_matches (error_message (NonError ''x is not a working tree''))
   \<and> ExistsSync (options_path sample_options) \<in> set (drop (length ([] :: call list))
        (snd (remove (failing_remove_env ''linux'' (NonError ''x is not a working tree'') True)
           sample_options [])))
   \<and> git_raw (failing_remove_env ''linux'' (JsError ''fatal: boom'') True) [] prune_args = Inr []
   \<and> git_raw (failing_remove_env ''linux'' (JsError ''fatal: boom'') True) [prune_call]
        (remove_args sample_options) = Inl (JsError ''fatal: boom'')
   \<and> \<not> message_matches (error_message (JsError ''fatal: boom''))
   \<and> remove (failing_remove_env ''linux'' (JsError ''fatal: boom'') True) sample_options [] =
        (Inl (JsError ''fatal: boom''), [prune_call, remove_call sample_options])"
proof -
  let ?E = "failing_remove_env ''linux'' (NonError ''x is not a working tree'') True"
  let ?F = "failing_remove_env ''linux'' (JsError ''fatal: boom'') True"
  have m1: "message_matches (error_message (NonError ''x is not a working tree''))"
    by code_simp
  have m2: "\<not> message_matches (error_message (JsError ''fatal: boom''))"
    by code_simp
  have g1: "git_raw ?E [] prune_args = Inr []"
    and g2: "git_raw ?E ([] @ [prune_call]) (remove_args sample_options) = Inl (NonError ''x is not a working tree'')"
    and g3: "git_raw ?F [] prune_args = Inr []"
    and g4: "git_raw ?F ([] @ [prune_call]) (remove_args sample_options) = Inl (JsError ''fatal: boom'')"
    by (simp_all add: failing_remove_env_def prune_args_def remove_args_def)
  have "ExistsSync (options_path sample_options) \<in> set (drop (length ([] :: call list))
        (snd (remove ?E sample_options [])))"
    using remove_recovery_condition [of sample_options "[]" ?E, THEN conjunct1] g1 g2 m1
    by blast
  moreover have "remove ?F sample_options [] =
        (Inl (JsError ''fatal: boom''), [] @ [prune_call, remove_call sample_options])"
    using remove_recovery_condition [of sample_options "[]" ?F, THEN conjunct2, THEN conjunct2,
        THEN conjunct1] g3 g4 m2
    by blast
  ultimately show ?thesis
    using m1 m2 g1 g2 g3 g4 by simp
qed

text \<open>
  C5, as amended. Of the errors that arise in \<open>remove\<close>, only three kinds are kept from
  the caller: a matched error of \<open>git worktree remove\<close> starts the manual cleanup; whatever
  the manual deletion throws is replaced by one error with a fixed message naming the
  path; failures of the kill script and of the branch deletion are swallowed. An error of
  the first prune, an unmatched error of \<open>git worktree remove\<close> and an error of the second
  prune reach the caller as they were thrown.
\<close>

theorem remove_error_results:
  "let p = options_path options;
       t1 = t @ [prune_call];
       t2 = t1 @ [remove_call options];
       t3 = t2 @ [ExistsSync p];
       t5 = t3 @ kill_calls E p @ [SetTimeout 500];
       t6 = t5 @ [delete_call E p];
       result = fst (remove E options t)
   in (\<forall>e. git_raw E t prune_args = Inl e \<longrightarrow> result = Inl e)
    \<and> (\<forall>out out'. git_raw E t prune_args = Inr out \<and> git_raw E t1 (remove_args options) = Inr out'
          \<longrightarrow> result = Inr ())
    \<and> (\<forall>out e. git_raw E t prune_args = Inr out \<and> git_raw E t1 (remove_args options) = Inl e
          \<and> \<not> message_matches (error_message e)
          \<longrightarrow> result = Inl e)
    \<and> (\<forall>out e. git_raw E t prune_args = Inr out \<and> git_raw E t1 (remove_args options) = Inl e
          \<and> message_matches (error_message e) \<and> \<not> exists_sync E t2 p
          \<longrightarrow> result = (case git_raw E t3 prune_args of Inl e' \<Rightarrow> Inl e' | Inr out' \<Rightarrow> Inr ()))
    \<and> (\<forall>out e. git_raw E t prune_args = Inr out \<and> git_raw E t1 (remove_args options) = Inl e
          \<and> message_matches (error_message e) \<and> exists_sync E t2 p
          \<longrightarrow> result =
                (case delete_answer E t5 p of
                   Inl rmError \<Rightarrow> Inl (removal_failed p)
                 | Inr u \<Rightarrow>
                     (case git_raw E t6 prune_args of Inl e' \<Rightarrow> Inl e' | Inr out' \<Rightarrow> Inr ())))
    \<and> fst (killProcessesInDirectory E p t') = Inr ()
    \<and> fst (delete_branch E options t') = Inr ()"
  by (simp add: remove_eq Let_def kill_eq delete_branch_eq split: sum.splits)

theorem remove_error_results_witness:
  "git_raw (failing_remove_env ''linux'' (JsError ''error: Permission denied'') True) [] prune_args = Inr []
   \<and> git_raw (failing_remove_env ''linux'' (JsError ''error: Permission denied'') True) [prune_call]
        (remove_args sample_options) = Inl (JsError ''error: Permission denied'')
   \<and> message_matches (error_message (JsError ''error: Permission denied''))
   \<and> exists_sync (failing_remove_env ''linux'' (JsError ''error: Permission denied'') True)
        [prune_call, remove_call sample_options] (options_path sample_options)
   \<and> fst (remove (failing_remove_env ''linux'' (JsError ''error: Permission denied'') True)
        sample_options []) = Inr ()"
proof -
  let ?E = "failing_remove_env ''linux'' (JsError ''error: Permission denied'') True"
  have m: "message_matches (error_message (JsError ''error: Permission denied''))"
    by code_simp
  have g1: "git_raw ?E [] prune_args = Inr []"
    by (simp add: failing_remove_env_def prune_args_def)
  have g2: "git_raw ?E [prune_call] (remove_args sample_options) = Inl (JsError ''error: Permission denied'')"
    by (simp add: failing_remove_env_def remove_args_def)
  have x: "exists_sync ?E [prune_call, remove_call sample_options] (options_path sample_options)"
    by (simp add: failing_remove_env_def)
  have rest: "platform ?E = ''linux''" "\<And>t p. fs_rm ?E t p = Inr ()"
    "\<And>t. git_raw ?E t prune_args = Inr []"
    by (simp_all add: failing_remove_env_def posix_env_def prune_args_def)
  show ?thesis
    using remove_error_results [of sample_options "[]" ?E] m g1 g2 x
    by (simp add: Let_def rest delete_answer_def)
qed

text \<open>
  C5 as stated fails: an error of \<open>git worktree remove\<close> whose message does not match is
  caught and then handed to the caller as it is, and an error of the first prune is not
  caught at all.
\<close>

theorem remove_verbatim_counterexample:
  "remove (failing_remove_env ''linux'' (JsError ''fatal: boom'') True) sample_options [] =
     (Inl (JsError ''fatal: boom''),
      [GitRaw [''worktree'', ''prune''],
       GitRaw [''worktree'', ''remove'', ''--force'', ''/repo/wt'']])
   \<and> remove (posix_env\<lparr>git_raw := (\<lambda>t args. Inl (JsError ''fatal: not a git repository''))\<rparr>)
        sample_options [] =
     (Inl (JsError ''fatal: not a git repository''), [GitRaw [''worktree'', ''prune'']])"
  by code_simp



end
